theory Spec2Isabelle
  imports Main "HOL-Library.Word"
begin

section \<open>pwm-gpio: PWM output on a GPIO line, driven by a high-resolution timer\<close>

text \<open>
  A shallow embedding of \<^verbatim>\<open>src/pwm-gpio.c\<close>. The driver's functions are translated
  one by one and keep their names. The kernel services they call
  (\<^verbatim>\<open>mutex_lock\<close>, \<^verbatim>\<open>gpiod_set_value_cansleep\<close>, \<^verbatim>\<open>hrtimer_start\<close>,
  \<^verbatim>\<open>hrtimer_cancel\<close>, \<^verbatim>\<open>hrtimer_forward_now\<close>, \<^verbatim>\<open>kzalloc\<close>, \<^verbatim>\<open>gpiod_get\<close>) are
  Linux functions, not code of the driver; each is given the effect that Linux
  documents for it, on an abstract picture of the object it works on, and every
  call the driver makes is also appended to a log, in program order.
\<close>

subsection \<open>Kernel objects\<close>

text \<open>
  \<^verbatim>\<open>ktime_t\<close> is a signed 64-bit count of nanoseconds. It is modelled as \<open>int\<close>;
  the one kernel addition that checks for overflow, \<^verbatim>\<open>ktime_add_safe\<close>, has its
  check written out. On times that are not negative, the other sums and the
  difference that \<^verbatim>\<open>hrtimer_forward\<close> computes stay between 0 and the current
  time, so they are exact whenever the clock reading itself is a \<^verbatim>\<open>ktime_t\<close>.
\<close>

type_synonym ktime_t = int

definition KTIME_MAX :: ktime_t where
  "KTIME_MAX = 2 ^ 63 - 1"

text \<open>The value of a 64-bit sum read back as a signed number.\<close>

definition s64_of :: "int \<Rightarrow> int" where
  "s64_of x = (x + 2 ^ 63) mod 2 ^ 64 - 2 ^ 63"

text \<open>
  \<^verbatim>\<open>ktime_add_safe\<close> (kernel/time/hrtimer.c): the wrapped sum, replaced by
  \<^verbatim>\<open>KTIME_MAX\<close> when it is negative or below one of the operands.
\<close>

definition ktime_add_safe :: "ktime_t \<Rightarrow> ktime_t \<Rightarrow> ktime_t" where
  "ktime_add_safe lhs rhs =
     (let res = s64_of (lhs + rhs)
      in if res < 0 \<or> res < lhs \<or> res < rhs then KTIME_MAX else res)"

text \<open>\<^verbatim>\<open>ns_to_ktime\<close> of an \<^verbatim>\<open>unsigned int\<close>: the value, zero-extended.\<close>

definition ns_to_ktime :: "32 word \<Rightarrow> ktime_t" where
  "ns_to_ktime ns = uint ns"

text \<open>
  \<^verbatim>\<open>struct hrtimer\<close>, as far as the driver and \<^verbatim>\<open>hrtimer_forward\<close> see it: the
  expiry time and whether the timer is queued (\<^verbatim>\<open>HRTIMER_STATE_ENQUEUED\<close>).
  The callback is always \<^verbatim>\<open>gpio_pwm_timer\<close> (line 168), so the
  \<^verbatim>\<open>function\<close> field is not carried.
\<close>

record hrtimer =
  expires :: ktime_t
  enqueued :: bool

datatype hrtimer_restart = HRTIMER_NORESTART | HRTIMER_RESTART

datatype pwm_polarity = PWM_POLARITY_NORMAL | PWM_POLARITY_INVERSED

text \<open>The kernel calls the driver makes on its mutex, its GPIO line and its timer.\<close>

datatype kcall =
    MutexLock
  | MutexUnlock
  | GpiodSetValue int
  | HrtimerStart ktime_t
  | HrtimerCancel
  | HrtimerForwardNow ktime_t

subsection \<open>The channel record\<close>

text \<open>
  \<^verbatim>\<open>struct gpio_pwm_data\<close> (lines 38-48). \<open>gpio_pwm\<close> is the logical value the
  GPIO line was last set to. The mutex has no field of its own: what happens
  to it is the sequence of \<open>MutexLock\<close> and \<open>MutexUnlock\<close> entries of \<open>calls\<close>,
  the log of kernel calls made on this channel, oldest first.
\<close>

record gpio_pwm_data =
  is_running :: bool
  polarity :: bool
  pin_on :: bool
  on_time :: "32 word"
  off_time :: "32 word"
  timer :: hrtimer
  gpio_pwm :: bool
  calls :: "kcall list"

definition logged :: "kcall \<Rightarrow> gpio_pwm_data \<Rightarrow> gpio_pwm_data" where
  "logged c d = d\<lparr>calls := calls d @ [c]\<rparr>"

definition mutex_lock :: "gpio_pwm_data \<Rightarrow> gpio_pwm_data" where
  "mutex_lock d = logged MutexLock d"

definition mutex_unlock :: "gpio_pwm_data \<Rightarrow> gpio_pwm_data" where
  "mutex_unlock d = logged MutexUnlock d"

text \<open>\<^verbatim>\<open>gpiod_set_value_cansleep\<close>: the line takes the logical value \<open>value \<noteq> 0\<close>.\<close>

definition gpiod_set_value_cansleep :: "int \<Rightarrow> gpio_pwm_data \<Rightarrow> gpio_pwm_data" where
  "gpiod_set_value_cansleep v d = logged (GpiodSetValue v) (d\<lparr>gpio_pwm := (v \<noteq> 0)\<rparr>)"

subsection \<open>The timer services\<close>

text \<open>
  \<^verbatim>\<open>hrtimer_forward\<close> (kernel/time/hrtimer.c), with the global
  \<^verbatim>\<open>hrtimer_resolution\<close> as the parameter \<open>res\<close> (1 ns in high-resolution mode,
  one tick otherwise; never 0). It returns the number of overruns and the
  timer. Nothing moves when the expiry is still ahead of \<open>now\<close> or the timer is
  queued; an interval below the resolution is raised to it; a timer that is late
  by a whole interval or more skips the missed periods, so that the new expiry
  is after \<open>now\<close>.
\<close>

definition hrtimer_forward :: "ktime_t \<Rightarrow> hrtimer \<Rightarrow> ktime_t \<Rightarrow> ktime_t \<Rightarrow> int \<times> hrtimer" where
  "hrtimer_forward res t now interval =
     (let delta = now - expires t
      in if delta < 0 then (0, t)
         else if enqueued t then (0, t)
         else
           let interval = (if interval < res then res else interval)
           in if delta \<ge> interval then
                let incr = interval;
                    orun = delta div incr;
                    t1 = t\<lparr>expires := expires t + incr * orun\<rparr>
                in if expires t1 > now then (orun, t1)
                   else (orun + 1, t1\<lparr>expires := ktime_add_safe (expires t1) interval\<rparr>)
              else (1, t\<lparr>expires := ktime_add_safe (expires t) interval\<rparr>))"

text \<open>
  \<^verbatim>\<open>hrtimer_forward_now\<close>: \<^verbatim>\<open>hrtimer_forward\<close> at the clock's current reading,
  which the model takes as the argument \<open>now\<close>. The driver drops the overrun count.
\<close>

definition hrtimer_forward_now :: "ktime_t \<Rightarrow> ktime_t \<Rightarrow> ktime_t \<Rightarrow> gpio_pwm_data \<Rightarrow> gpio_pwm_data" where
  "hrtimer_forward_now res now interval d =
     logged (HrtimerForwardNow interval)
       (d\<lparr>timer := snd (hrtimer_forward res (timer d) now interval)\<rparr>)"

text \<open>
  \<^verbatim>\<open>hrtimer_start\<close> with \<^verbatim>\<open>HRTIMER_MODE_REL\<close>: the expiry is the given delay added
  to the current time, and the timer is queued. (A kernel configured with
  \<^verbatim>\<open>CONFIG_TIME_LOW_RES\<close> adds one timer resolution to a relative expiry; that
  configuration is not modelled.)
\<close>

definition hrtimer_start :: "ktime_t \<Rightarrow> ktime_t \<Rightarrow> gpio_pwm_data \<Rightarrow> gpio_pwm_data" where
  "hrtimer_start now tim d =
     logged (HrtimerStart tim)
       (d\<lparr>timer := \<lparr>expires = ktime_add_safe tim now, enqueued = True\<rparr>\<rparr>)"

text \<open>
  \<^verbatim>\<open>hrtimer_cancel\<close>: waits for a running callback to finish and takes the timer
  off the queue; on return the timer is neither queued nor running.
\<close>

definition hrtimer_cancel :: "gpio_pwm_data \<Rightarrow> gpio_pwm_data" where
  "hrtimer_cancel d = logged HrtimerCancel (d\<lparr>timer := (timer d)\<lparr>enqueued := False\<rparr>\<rparr>)"

subsection \<open>The driver\<close>

text \<open>Lines 50-62.\<close>

definition gpio_pwm_off :: "gpio_pwm_data \<Rightarrow> gpio_pwm_data" where
  "gpio_pwm_off d =
     (gpiod_set_value_cansleep (if polarity d then 1 else 0) d)\<lparr>pin_on := False\<rparr>"

definition gpio_pwm_on :: "gpio_pwm_data \<Rightarrow> gpio_pwm_data" where
  "gpio_pwm_on d =
     (gpiod_set_value_cansleep (if polarity d then 0 else 1) d)\<lparr>pin_on := True\<rparr>"

text \<open>
  Lines 64-81, the timer callback. \<open>now\<close> is the clock reading that
  \<^verbatim>\<open>hrtimer_forward_now\<close> takes during this call.
\<close>

definition gpio_pwm_timer :: "ktime_t \<Rightarrow> ktime_t \<Rightarrow> gpio_pwm_data \<Rightarrow> hrtimer_restart \<times> gpio_pwm_data" where
  "gpio_pwm_timer res now d =
     (if \<not> pin_on d then
        (let d1 = gpio_pwm_on d
         in (HRTIMER_RESTART, hrtimer_forward_now res now (ns_to_ktime (on_time d1)) d1))
      else
        (let d1 = gpio_pwm_off d
         in (HRTIMER_RESTART, hrtimer_forward_now res now (ns_to_ktime (off_time d1)) d1)))"

text \<open>
  Lines 83-94. The arguments are C \<^verbatim>\<open>int\<close>s, held as 32-bit words (read them with
  \<open>sint\<close>); storing an \<^verbatim>\<open>int\<close> in an \<^verbatim>\<open>unsigned int\<close> keeps its bits, and the
  subtraction wraps (the kernel is built with \<^verbatim>\<open>-fno-strict-overflow\<close>).
\<close>

definition gpio_pwm_config :: "32 word \<Rightarrow> 32 word \<Rightarrow> gpio_pwm_data \<Rightarrow> int \<times> gpio_pwm_data" where
  "gpio_pwm_config duty_ns period_ns d =
     (let d1 = mutex_lock d;
          d2 = d1\<lparr>on_time := duty_ns\<rparr>;
          d3 = d2\<lparr>off_time := period_ns - duty_ns\<rparr>;
          d4 = mutex_unlock d3
      in (0, d4))"

text \<open>Lines 96-106.\<close>

definition gpio_pwm_set_polarity :: "pwm_polarity \<Rightarrow> gpio_pwm_data \<Rightarrow> int \<times> gpio_pwm_data" where
  "gpio_pwm_set_polarity pol d =
     (let d1 = mutex_lock d;
          d2 = d1\<lparr>polarity := (if pol \<noteq> PWM_POLARITY_NORMAL then True else False)\<rparr>;
          d3 = mutex_unlock d2
      in (0, d3))"

definition EBUSY :: int where
  "EBUSY = 16"

definition ENOMEM :: int where
  "ENOMEM = 12"

text \<open>
  Lines 108-126. \<open>now\<close> is the clock reading \<^verbatim>\<open>hrtimer_start\<close> adds the relative
  delay to.
\<close>

definition gpio_pwm_enable :: "ktime_t \<Rightarrow> gpio_pwm_data \<Rightarrow> int \<times> gpio_pwm_data" where
  "gpio_pwm_enable now d =
     (let d1 = mutex_lock d
      in if is_running d1 then (- EBUSY, mutex_unlock d1)
         else
           let d2 = d1\<lparr>is_running := True\<rparr>;
               d3 = hrtimer_start now 0 d2
           in (0, mutex_unlock d3))"

text \<open>Lines 128-144.\<close>

definition gpio_pwm_disable :: "gpio_pwm_data \<Rightarrow> gpio_pwm_data" where
  "gpio_pwm_disable d =
     (let d1 = mutex_lock d
      in if \<not> is_running d1 then mutex_unlock d1
         else
           let d2 = hrtimer_cancel d1;
               d3 = gpio_pwm_off d2;
               d4 = d3\<lparr>is_running := False\<rparr>
           in mutex_unlock d4)"

text \<open>
  The channel's resources, as the PWM core and the allocators see them: the
  number of \<^verbatim>\<open>kzalloc\<close> blocks of this driver that are not freed, whether the
  "pwm" GPIO line is held, and the chip data pointer of the PWM device.
\<close>

record pwm_host =
  kmem :: nat
  gpio_claimed :: bool
  chip_data :: "gpio_pwm_data option"

text \<open>What \<^verbatim>\<open>kzalloc\<close> returns: the structure, zero-filled.\<close>

definition kzalloc_data :: gpio_pwm_data where
  "kzalloc_data =
     \<lparr>is_running = False, polarity = False, pin_on = False, on_time = 0, off_time = 0,
      timer = \<lparr>expires = 0, enqueued = False\<rparr>, gpio_pwm = False, calls = []\<rparr>"

text \<open>\<^verbatim>\<open>hrtimer_init\<close>: an inactive timer.\<close>

definition hrtimer_init :: hrtimer where
  "hrtimer_init = \<lparr>expires = 0, enqueued = False\<rparr>"

text \<open>
  Lines 146-174. \<open>alloc_ok\<close> says whether \<^verbatim>\<open>kzalloc\<close> succeeds; \<open>line\<close> is the
  outcome of \<^verbatim>\<open>gpiod_get\<close>: \<open>Inl e\<close> for \<^verbatim>\<open>ERR_PTR(e)\<close>, \<open>Inr ()\<close> for a
  descriptor, whose line is then an output at logical 0 (\<^verbatim>\<open>GPIOD_OUT_LOW\<close>).
  \<^verbatim>\<open>pwm_set_chip_data\<close> stores the pointer and returns 0. The two messages
  (\<^verbatim>\<open>dev_err\<close>, \<^verbatim>\<open>dev_warn\<close>) change nothing and are left out.
\<close>

definition gpio_pwm_request :: "bool \<Rightarrow> int + unit \<Rightarrow> pwm_host \<Rightarrow> int \<times> pwm_host" where
  "gpio_pwm_request alloc_ok line h =
     (if \<not> alloc_ok then (- ENOMEM, h)
      else
        let h1 = h\<lparr>kmem := kmem h + 1\<rparr>;
            gpio_data = kzalloc_data
        in case line of
             Inl err \<Rightarrow> (err, h1)
           | Inr _ \<Rightarrow>
               let h2 = h1\<lparr>gpio_claimed := True\<rparr>;
                   d1 = gpio_data\<lparr>timer := hrtimer_init\<rparr>;
                   d2 = d1\<lparr>gpio_pwm := False\<rparr>;
                   d3 = d2\<lparr>pin_on := False\<rparr>;
                   d4 = d3\<lparr>is_running := False\<rparr>
               in (0, h2\<lparr>chip_data := Some d4\<rparr>))"

text \<open>
  Lines 176-183: disable, \<^verbatim>\<open>gpiod_put\<close>, \<^verbatim>\<open>kfree\<close>. Without chip data the call
  of disable dereferences a null pointer: \<open>None\<close>. \<^verbatim>\<open>kfree\<close> where no block is
  allocated is an error too, and \<open>None\<close> as well. The function never calls
  \<^verbatim>\<open>pwm_set_chip_data\<close>: the chip data pointer is left as it is, referring to
  the block that has been freed.
\<close>

definition gpio_pwm_free :: "pwm_host \<Rightarrow> pwm_host option" where
  "gpio_pwm_free h =
     (case chip_data h of
        None \<Rightarrow> None
      | Some gpio_data \<Rightarrow>
          let d1 = gpio_pwm_disable gpio_data;
              h1 = h\<lparr>chip_data := Some d1\<rparr>;
              h2 = h1\<lparr>gpio_claimed := False\<rparr>
          in if kmem h2 = 0 then None else Some (h2\<lparr>kmem := kmem h2 - 1\<rparr>))"

subsection \<open>The timer core and runs of the channel\<close>

text \<open>
  One expiry as the hrtimer core handles it (\<^verbatim>\<open>__run_hrtimer\<close>): a queued timer
  whose expiry has been reached is taken off the queue, its callback runs, and
  it is queued again when the callback returns \<^verbatim>\<open>HRTIMER_RESTART\<close> and has
  not queued it itself. A timer that is not queued or not yet due does not fire.
\<close>

definition run_hrtimer :: "ktime_t \<Rightarrow> ktime_t \<Rightarrow> gpio_pwm_data \<Rightarrow> gpio_pwm_data" where
  "run_hrtimer res now d =
     (if enqueued (timer d) \<and> expires (timer d) \<le> now then
        let d1 = d\<lparr>timer := (timer d)\<lparr>enqueued := False\<rparr>\<rparr>;
            (restart, d2) = gpio_pwm_timer res now d1
        in if restart = HRTIMER_RESTART \<and> \<not> enqueued (timer d2)
           then d2\<lparr>timer := (timer d2)\<lparr>enqueued := True\<rparr>\<rparr>
           else d2
      else d)"

text \<open>
  What can happen to an acquired channel: a call of one of the four operations,
  or an expiry of the timer. The operations serialise on the mutex, so a run is
  a list of these, each carried out whole.
\<close>

datatype action =
    Config "32 word" "32 word"
  | SetPolarity pwm_polarity
  | Enable ktime_t
  | Disable
  | Fire ktime_t

fun step :: "ktime_t \<Rightarrow> action \<Rightarrow> gpio_pwm_data \<Rightarrow> gpio_pwm_data" where
  "step res (Config duty_ns period_ns) d = snd (gpio_pwm_config duty_ns period_ns d)"
| "step res (SetPolarity pol) d = snd (gpio_pwm_set_polarity pol d)"
| "step res (Enable now) d = snd (gpio_pwm_enable now d)"
| "step res Disable d = gpio_pwm_disable d"
| "step res (Fire now) d = run_hrtimer res now d"

definition run :: "ktime_t \<Rightarrow> action list \<Rightarrow> gpio_pwm_data \<Rightarrow> gpio_pwm_data" where
  "run res acts d = fold (step res) acts d"

text \<open>Consecutive expiries, handled at the clock readings \<open>nows\<close>.\<close>

definition fires :: "ktime_t \<Rightarrow> ktime_t list \<Rightarrow> gpio_pwm_data \<Rightarrow> gpio_pwm_data" where
  "fires res nows d = run res (map Fire nows) d"

subsection \<open>The operations statement by statement, and threads\<close>

text \<open>
  The same functions once more, as the sequence of their statements, so that
  callers in several threads and the timer context can be interleaved. A
  statement either takes the mutex, releases it, cancels the timer (which
  waits for a callback that is running), or touches the channel record, the
  pin or the timer in some other way; a test reads the record and chooses how
  to go on; \<open>Return\<close> carries the value returned (0 where the function
  returns nothing).
\<close>

datatype kind = Lock | Unlock | Cancel | Touch

datatype prog =
    Return int
  | Do kind "gpio_pwm_data \<Rightarrow> gpio_pwm_data" prog
  | Test "gpio_pwm_data \<Rightarrow> bool" prog prog

text \<open>A program run from start to end with nothing in between.\<close>

fun seq :: "prog \<Rightarrow> gpio_pwm_data \<Rightarrow> int \<times> gpio_pwm_data" where
  "seq (Return r) d = (r, d)"
| "seq (Do k f p) d = seq p (f d)"
| "seq (Test c p q) d = (if c d then seq p d else seq q d)"

fun steps_of :: "prog \<Rightarrow> (gpio_pwm_data \<Rightarrow> gpio_pwm_data) list" where
  "steps_of (Return r) = []"
| "steps_of (Do k f p) = f # steps_of p"
| "steps_of (Test c p q) = steps_of p @ steps_of q"

text \<open>Lines 83-94.\<close>

definition config_prog :: "32 word \<Rightarrow> 32 word \<Rightarrow> prog" where
  "config_prog duty_ns period_ns =
     Do Lock mutex_lock
       (Do Touch (\<lambda>d. d\<lparr>on_time := duty_ns\<rparr>)
         (Do Touch (\<lambda>d. d\<lparr>off_time := period_ns - duty_ns\<rparr>)
           (Do Unlock mutex_unlock
             (Return 0))))"

text \<open>Lines 96-106.\<close>

definition set_polarity_prog :: "pwm_polarity \<Rightarrow> prog" where
  "set_polarity_prog pol =
     Do Lock mutex_lock
       (Do Touch (\<lambda>d. d\<lparr>polarity := (if pol \<noteq> PWM_POLARITY_NORMAL then True else False)\<rparr>)
         (Do Unlock mutex_unlock
           (Return 0)))"

text \<open>Lines 108-126.\<close>

definition enable_prog :: "ktime_t \<Rightarrow> prog" where
  "enable_prog now =
     Do Lock mutex_lock
       (Test is_running
          (Do Unlock mutex_unlock
            (Return (- EBUSY)))
          (Do Touch (\<lambda>d. d\<lparr>is_running := True\<rparr>)
            (Do Touch (hrtimer_start now 0)
              (Do Unlock mutex_unlock
                (Return 0)))))"

text \<open>Lines 128-144, with the two statements of \<^verbatim>\<open>gpio_pwm_off\<close> (lines 52-54).\<close>

definition disable_prog :: prog where
  "disable_prog =
     Do Lock mutex_lock
       (Test (\<lambda>d. \<not> is_running d)
          (Do Unlock mutex_unlock
            (Return 0))
          (Do Cancel hrtimer_cancel
            (Do Touch (\<lambda>d. gpiod_set_value_cansleep (if polarity d then 1 else 0) d)
              (Do Touch (\<lambda>d. d\<lparr>pin_on := False\<rparr>)
                (Do Touch (\<lambda>d. d\<lparr>is_running := False\<rparr>)
                  (Do Unlock mutex_unlock
                    (Return 0)))))))"

text \<open>
  Lines 64-81, with the statements of \<^verbatim>\<open>gpio_pwm_on\<close> and \<^verbatim>\<open>gpio_pwm_off\<close>. The
  value returned is that of the enumeration: 1 for \<^verbatim>\<open>HRTIMER_RESTART\<close>.
\<close>

fun restart_code :: "hrtimer_restart \<Rightarrow> int" where
  "restart_code HRTIMER_NORESTART = 0"
| "restart_code HRTIMER_RESTART = 1"

definition timer_prog :: "ktime_t \<Rightarrow> ktime_t \<Rightarrow> prog" where
  "timer_prog res now =
     Test (\<lambda>d. \<not> pin_on d)
       (Do Touch (\<lambda>d. gpiod_set_value_cansleep (if polarity d then 0 else 1) d)
         (Do Touch (\<lambda>d. d\<lparr>pin_on := True\<rparr>)
           (Do Touch (\<lambda>d. hrtimer_forward_now res now (ns_to_ktime (on_time d)) d)
             (Return (restart_code HRTIMER_RESTART)))))
       (Do Touch (\<lambda>d. gpiod_set_value_cansleep (if polarity d then 1 else 0) d)
         (Do Touch (\<lambda>d. d\<lparr>pin_on := False\<rparr>)
           (Do Touch (\<lambda>d. hrtimer_forward_now res now (ns_to_ktime (off_time d)) d)
             (Return (restart_code HRTIMER_RESTART)))))"

datatype operation =
    OpConfig "32 word" "32 word"
  | OpSetPolarity pwm_polarity
  | OpEnable ktime_t
  | OpDisable

fun prog_of :: "operation \<Rightarrow> prog" where
  "prog_of (OpConfig duty_ns period_ns) = config_prog duty_ns period_ns"
| "prog_of (OpSetPolarity pol) = set_polarity_prog pol"
| "prog_of (OpEnable now) = enable_prog now"
| "prog_of OpDisable = disable_prog"

text \<open>The function each operation is, for comparison.\<close>

fun result_of :: "operation \<Rightarrow> gpio_pwm_data \<Rightarrow> int \<times> gpio_pwm_data" where
  "result_of (OpConfig duty_ns period_ns) d = gpio_pwm_config duty_ns period_ns d"
| "result_of (OpSetPolarity pol) d = gpio_pwm_set_polarity pol d"
| "result_of (OpEnable now) d = gpio_pwm_enable now d"
| "result_of OpDisable d = (0, gpio_pwm_disable d)"

text \<open>
  A channel in use: the shared record, the caller that holds the mutex if any,
  what each caller thread still has to execute (\<open>Return\<close> when it is not inside
  an operation), and what the timer context still has to execute of a callback
  it is running. The mutex is taken to work as an initialised kernel mutex
  does (the source never calls \<^verbatim>\<open>mutex_init\<close>; the block is zero-filled).
\<close>

record system =
  chan :: gpio_pwm_data
  owner :: "nat option"
  callers :: "prog list"
  callback :: "prog option"

definition boot :: "nat \<Rightarrow> gpio_pwm_data \<Rightarrow> system" where
  "boot n d = \<lparr>chan = d, owner = None, callers = replicate n (Return 0), callback = None\<rparr>"

fun idle :: "prog \<Rightarrow> bool" where
  "idle (Return r) = True"
| "idle _ = False"

text \<open>What the hrtimer core does when the callback has returned \<open>r\<close>.\<close>

definition requeue :: "int \<Rightarrow> gpio_pwm_data \<Rightarrow> gpio_pwm_data" where
  "requeue r d =
     (if r = restart_code HRTIMER_RESTART \<and> \<not> enqueued (timer d)
      then d\<lparr>timer := (timer d)\<lparr>enqueued := True\<rparr>\<rparr> else d)"

text \<open>
  One move of the system: a caller that is not inside an operation enters one;
  a caller executes its next statement; the hrtimer core takes a due timer
  off the queue and starts the callback; the timer context executes the next
  statement of the callback, or, the callback having returned, the core
  queues the timer again. \<^verbatim>\<open>mutex_lock\<close> can be executed only while no caller
  holds the mutex, \<^verbatim>\<open>hrtimer_cancel\<close> only while no callback is running; every
  other statement can be executed at any time. A move that cannot be made
  gives \<open>None\<close>.
\<close>

datatype move = Call nat operation | Run nat | Expire ktime_t | Tick

definition run_statement :: "nat \<Rightarrow> kind \<Rightarrow> (gpio_pwm_data \<Rightarrow> gpio_pwm_data) \<Rightarrow> prog
    \<Rightarrow> system \<Rightarrow> system option" where
  "run_statement i k f p s =
     (case k of
        Lock \<Rightarrow>
          if owner s = None
          then Some (s\<lparr>chan := f (chan s), owner := Some i, callers := (callers s)[i := p]\<rparr>)
          else None
      | Unlock \<Rightarrow>
          if owner s = Some i
          then Some (s\<lparr>chan := f (chan s), owner := None, callers := (callers s)[i := p]\<rparr>)
          else None
      | Cancel \<Rightarrow>
          if callback s = None
          then Some (s\<lparr>chan := f (chan s), callers := (callers s)[i := p]\<rparr>)
          else None
      | Touch \<Rightarrow> Some (s\<lparr>chan := f (chan s), callers := (callers s)[i := p]\<rparr>))"

fun perform :: "ktime_t \<Rightarrow> move \<Rightarrow> system \<Rightarrow> system option" where
  "perform res (Call i op) s =
     (if i < length (callers s) \<and> idle (callers s ! i)
      then Some (s\<lparr>callers := (callers s)[i := prog_of op]\<rparr>)
      else None)"
| "perform res (Run i) s =
     (if i < length (callers s) then
        (case callers s ! i of
           Return r \<Rightarrow> None
         | Do k f p \<Rightarrow> run_statement i k f p s
         | Test c p q \<Rightarrow>
             Some (s\<lparr>callers := (callers s)[i := (if c (chan s) then p else q)]\<rparr>))
      else None)"
| "perform res (Expire now) s =
     (if callback s = None \<and> enqueued (timer (chan s)) \<and> expires (timer (chan s)) \<le> now
      then Some (s\<lparr>chan := (chan s)\<lparr>timer := (timer (chan s))\<lparr>enqueued := False\<rparr>\<rparr>,
                   callback := Some (timer_prog res now)\<rparr>)
      else None)"
| "perform res Tick s =
     (case callback s of
        None \<Rightarrow> None
      | Some (Return r) \<Rightarrow> Some (s\<lparr>chan := requeue r (chan s), callback := None\<rparr>)
      | Some (Do k f p) \<Rightarrow>
          (if k = Touch then Some (s\<lparr>chan := f (chan s), callback := Some p\<rparr>) else None)
      | Some (Test c p q) \<Rightarrow> Some (s\<lparr>callback := Some (if c (chan s) then p else q)\<rparr>))"

fun moves :: "ktime_t \<Rightarrow> move list \<Rightarrow> system \<Rightarrow> system option" where
  "moves res [] s = Some s"
| "moves res (m # ms) s =
     (case perform res m s of None \<Rightarrow> None | Some s' \<Rightarrow> moves res ms s')"

text \<open>
  Where a caller stands with respect to the mutex. \<open>bracket True p\<close>: with
  \<open>p\<close> left to execute the caller is inside a critical section, that is, it
  holds the mutex and on every path releases it before it takes it again or
  returns. \<open>bracket False p\<close>: the caller is outside, that is, on every path
  it touches nothing before it has taken the mutex.
\<close>

fun bracket :: "bool \<Rightarrow> prog \<Rightarrow> bool" where
  "bracket held (Return r) = (\<not> held)"
| "bracket held (Do Lock f p) = (\<not> held \<and> bracket True p)"
| "bracket held (Do Unlock f p) = (held \<and> bracket False p)"
| "bracket held (Do Cancel f p) = (held \<and> bracket held p)"
| "bracket held (Do Touch f p) = (held \<and> bracket held p)"
| "bracket held (Test c p q) = (held \<and> bracket held p \<and> bracket held q)"

text \<open>A program that never takes or releases the mutex.\<close>

fun lock_free :: "prog \<Rightarrow> bool" where
  "lock_free (Return r) = True"
| "lock_free (Do k f p) = (k \<noteq> Lock \<and> k \<noteq> Unlock \<and> lock_free p)"
| "lock_free (Test c p q) = (lock_free p \<and> lock_free q)"

text \<open>A caller whose next statement reads or writes the record, the pin or the timer.\<close>

fun touches_next :: "prog \<Rightarrow> bool" where
  "touches_next (Return r) = False"
| "touches_next (Do k f p) = (k = Touch \<or> k = Cancel)"
| "touches_next (Test c p q) = True"

text \<open>
  What holds of the callers between two moves: the caller that holds the mutex
  is inside a critical section, every other caller is outside one.
\<close>

definition mutex_inv :: "system \<Rightarrow> bool" where
  "mutex_inv s =
     (list_all (\<lambda>i. bracket (owner s = Some i) (callers s ! i)) [0..<length (callers s)]
      \<and> (case owner s of None \<Rightarrow> True | Some i \<Rightarrow> i < length (callers s)))"

text \<open>
  The channel after an enable during which the timer expired and the callback
  ran between \<^verbatim>\<open>hrtimer_start\<close> (line 120) and \<^verbatim>\<open>mutex_unlock\<close> (line 123).
\<close>

definition enable_then_early_expiry :: "ktime_t \<Rightarrow> ktime_t \<Rightarrow> ktime_t \<Rightarrow> gpio_pwm_data \<Rightarrow> gpio_pwm_data" where
  "enable_then_early_expiry res t now d =
     mutex_unlock (run_hrtimer res now (hrtimer_start t 0 ((mutex_lock d)\<lparr>is_running := True\<rparr>)))"

subsection \<open>Notions used in the statements\<close>

text \<open>The kernel calls made between two states of the same channel.\<close>

definition new_calls :: "gpio_pwm_data \<Rightarrow> gpio_pwm_data \<Rightarrow> kcall list" where
  "new_calls d d' = drop (length (calls d)) (calls d')"

fun is_mutex_call :: "kcall \<Rightarrow> bool" where
  "is_mutex_call MutexLock = True"
| "is_mutex_call MutexUnlock = True"
| "is_mutex_call _ = False"

fun is_pin_write :: "kcall \<Rightarrow> bool" where
  "is_pin_write (GpiodSetValue v) = True"
| "is_pin_write _ = False"

text \<open>
  A list of calls is one critical section: it opens with the lock, closes with
  the unlock, and touches the mutex nowhere in between.
\<close>

definition critical_section :: "kcall list \<Rightarrow> bool" where
  "critical_section cs =
     (case cs of
        [] \<Rightarrow> False
      | c # rest \<Rightarrow>
          c = MutexLock \<and> rest \<noteq> [] \<and> last rest = MutexUnlock
          \<and> list_all (\<lambda>x. \<not> is_mutex_call x) (butlast rest))"

text \<open>
  The nominal time of the \<open>k\<close>-th phase boundary of a channel started at \<open>e0\<close>
  with an active phase of \<open>on\<close> and an inactive phase of \<open>off\<close> nanoseconds:
  boundary 0 is the start, odd boundaries end an active phase.
\<close>

definition boundary :: "ktime_t \<Rightarrow> int \<Rightarrow> int \<Rightarrow> nat \<Rightarrow> ktime_t" where
  "boundary e0 on off k = e0 + int ((k + 1) div 2) * on + int (k div 2) * off"

text \<open>
  The interval the next expiry forwards the timer by: \<open>off_time\<close> in the active
  phase, \<open>on_time\<close> in the inactive one, raised to the timer resolution when it
  is below it.
\<close>

definition forward_interval :: "ktime_t \<Rightarrow> gpio_pwm_data \<Rightarrow> ktime_t" where
  "forward_interval res d = max res (ns_to_ktime (if pin_on d then off_time d else on_time d))"

fun is_enable :: "action \<Rightarrow> bool" where
  "is_enable (Enable t) = True"
| "is_enable _ = False"

text \<open>
  What holds of a channel between two steps of a run: it is marked running
  exactly when its timer is queued, and a stopped channel is in the inactive
  phase.
\<close>

definition chan_inv :: "gpio_pwm_data \<Rightarrow> bool" where
  "chan_inv d = (is_running d = enqueued (timer d) \<and> (is_running d \<or> \<not> pin_on d))"

section \<open>Properties\<close>

subsection \<open>The kernel services and the operations, equation by equation\<close>

lemmas kernel_defs = logged_def mutex_lock_def mutex_unlock_def gpiod_set_value_cansleep_def
  hrtimer_forward_now_def hrtimer_start_def hrtimer_cancel_def

lemma uint_word_sub_sint:
  "uint (a - b :: 32 word) = (sint a - sint b) mod 2 ^ 32"
proof -
  have "a - b = word_of_int (sint a - sint b)"
    by simp
  then have "uint (a - b) = uint (word_of_int (sint a - sint b) :: 32 word)"
    by simp
  also have "\<dots> = (sint a - sint b) mod 2 ^ 32"
    by (simp only: uint_word_of_int take_bit_eq_mod) simp
  finally show ?thesis .
qed

lemma uint_sint_mod: "uint (a :: 32 word) = sint a mod 2 ^ 32"
  using uint_word_sub_sint [of a 0] by simp

text \<open>Below \<^verbatim>\<open>KTIME_MAX\<close> the checked addition is the sum.\<close>

lemma ktime_add_safe_exact:
  assumes "0 \<le> a" "0 \<le> b" "a + b \<le> KTIME_MAX"
  shows "ktime_add_safe a b = a + b"
proof -
  have "s64_of (a + b) = a + b"
    using assms by (simp add: s64_of_def KTIME_MAX_def)
  then show ?thesis
    using assms by (simp add: ktime_add_safe_def Let_def)
qed

text \<open>An expiry handled less than one interval late moves by exactly the interval.\<close>

lemma hrtimer_forward_in_time:
  assumes "\<not> enqueued t" "0 \<le> expires t" "expires t \<le> now" "now < expires t + interval"
    "res \<le> interval" "expires t + interval \<le> KTIME_MAX"
  shows "snd (hrtimer_forward res t now interval) = t\<lparr>expires := expires t + interval\<rparr>"
proof -
  have "0 \<le> interval"
    using assms by linarith
  then have "ktime_add_safe (expires t) interval = expires t + interval"
    using assms by (simp add: ktime_add_safe_exact)
  then show ?thesis
    using assms by (simp add: hrtimer_forward_def Let_def)
qed

lemma hrtimer_forward_enqueued:
  "enqueued (snd (hrtimer_forward res t now interval)) = enqueued t"
  by (simp add: hrtimer_forward_def Let_def)

text \<open>
  In general the expiry moves by whole intervals, to the first such point after
  the clock reading.
\<close>

lemma raised_interval: "(if interval < res then res else interval) = max res (interval::int)"
  by (simp add: max_def)

lemma hrtimer_forward_cases:
  assumes "\<not> enqueued t" "expires t \<le> now"
  shows "max res interval \<le> now - expires t \<Longrightarrow>
           \<not> now < expires t + max res interval * ((now - expires t) div max res interval) \<Longrightarrow>
           expires (snd (hrtimer_forward res t now interval))
             = ktime_add_safe
                 (expires t + max res interval * ((now - expires t) div max res interval))
                 (max res interval)"
    and "\<not> max res interval \<le> now - expires t \<Longrightarrow>
           expires (snd (hrtimer_forward res t now interval))
             = ktime_add_safe (expires t) (max res interval)"
  using assms by (auto simp: hrtimer_forward_def Let_def raised_interval)

lemma hrtimer_forward_any_delay:
  assumes "\<not> enqueued t" "0 \<le> expires t" "expires t \<le> now" "0 < res"
    and "now + max res interval \<le> KTIME_MAX"
  shows "expires (snd (hrtimer_forward res t now interval))
           = expires t + ((now - expires t) div max res interval + 1) * max res interval"
proof -
  define I where "I = max res interval"
  define delta where "delta = now - expires t"
  define orun where "orun = delta div I"
  have I: "0 < I"
    unfolding I_def using assms(4) by simp
  have delta: "0 \<le> delta"
    unfolding delta_def using assms(3) by simp
  have split: "delta = I * orun + delta mod I"
    unfolding orun_def by simp
  have rest: "0 \<le> delta mod I" "delta mod I < I"
    using I by simp_all
  have orun: "0 \<le> orun"
    unfolding orun_def using delta I by (simp add: pos_imp_zdiv_nonneg_iff)
  then have prod: "0 \<le> I * orun"
    using I by simp
  have expand: "(orun + 1) * I = I * orun + I"
    by (simp add: algebra_simps)
  show ?thesis
  proof (cases "I \<le> delta")
    case True
    have not_after: "\<not> now < expires t + I * orun"
      using split rest delta_def by linarith
    have "expires (snd (hrtimer_forward res t now interval))
        = ktime_add_safe (expires t + I * orun) I"
      using hrtimer_forward_cases(1) [OF assms(1,3), of res interval] True not_after
      unfolding I_def delta_def orun_def by simp
    also have "\<dots> = expires t + I * orun + I"
    proof (rule ktime_add_safe_exact)
      show "0 \<le> expires t + I * orun" using assms(2) prod by linarith
      show "0 \<le> I" using I by simp
      show "expires t + I * orun + I \<le> KTIME_MAX"
        using split rest assms(5) delta_def I_def by linarith
    qed
    finally show ?thesis
      unfolding I_def [symmetric] delta_def [symmetric] orun_def [symmetric] expand
      by simp
  next
    case False
    then have "delta < I"
      by linarith
    with delta have zero: "orun = 0"
      unfolding orun_def by (rule div_pos_pos_trivial)
    have "expires (snd (hrtimer_forward res t now interval)) = ktime_add_safe (expires t) I"
      using hrtimer_forward_cases(2) [OF assms(1,3), of res interval] False
      unfolding I_def delta_def by simp
    also have "\<dots> = expires t + I"
    proof (rule ktime_add_safe_exact)
      show "0 \<le> expires t" by (rule assms(2))
      show "0 \<le> I" using I by simp
      show "expires t + I \<le> KTIME_MAX"
        using assms(3,5) I_def by linarith
    qed
    finally show ?thesis
      unfolding I_def [symmetric] delta_def [symmetric] orun_def [symmetric] zero
      by simp
  qed
qed

lemma next_multiple_after:
  assumes "0 < (i::int)" "e \<le> now"
  shows "now < e + ((now - e) div i + 1) * i" "e + ((now - e) div i + 1) * i \<le> now + i"
proof -
  define q where "q = (now - e) div i"
  define r where "r = (now - e) mod i"
  have split: "now - e = i * q + r"
    unfolding q_def r_def by simp
  have r: "0 \<le> r" "r < i"
    unfolding r_def using assms(1) by simp_all
  have expand: "(q + 1) * i = i * q + i"
    by (simp add: algebra_simps)
  show "now < e + ((now - e) div i + 1) * i"
    unfolding q_def [symmetric] expand using split r by linarith
  show "e + ((now - e) div i + 1) * i \<le> now + i"
    unfolding q_def [symmetric] expand using split r by linarith
qed

lemma enable_when_running:
  "is_running d \<Longrightarrow>
     gpio_pwm_enable now d = (- EBUSY, d\<lparr>calls := calls d @ [MutexLock, MutexUnlock]\<rparr>)"
  by (simp add: gpio_pwm_enable_def kernel_defs)

lemma enable_when_stopped:
  "\<not> is_running d \<Longrightarrow>
     gpio_pwm_enable now d =
       (0, d\<lparr>is_running := True,
             timer := \<lparr>expires = ktime_add_safe 0 now, enqueued = True\<rparr>,
             calls := calls d @ [MutexLock, HrtimerStart 0, MutexUnlock]\<rparr>)"
  by (simp add: gpio_pwm_enable_def kernel_defs)

lemma disable_when_stopped:
  "\<not> is_running d \<Longrightarrow>
     gpio_pwm_disable d = d\<lparr>calls := calls d @ [MutexLock, MutexUnlock]\<rparr>"
  by (simp add: gpio_pwm_disable_def kernel_defs)

lemma disable_when_running:
  "is_running d \<Longrightarrow>
     gpio_pwm_disable d =
       d\<lparr>is_running := False, pin_on := False, gpio_pwm := polarity d,
         timer := (timer d)\<lparr>enqueued := False\<rparr>,
         calls := calls d @ [MutexLock, HrtimerCancel,
                             GpiodSetValue (if polarity d then 1 else 0), MutexUnlock]\<rparr>"
  by (simp add: gpio_pwm_disable_def gpio_pwm_off_def kernel_defs)

lemma timer_callback_not_pin_on:
  "\<not> pin_on d \<Longrightarrow>
     gpio_pwm_timer res now d =
       (HRTIMER_RESTART,
        d\<lparr>pin_on := True, gpio_pwm := \<not> polarity d,
          timer := snd (hrtimer_forward res (timer d) now (uint (on_time d))),
          calls := calls d @ [GpiodSetValue (if polarity d then 0 else 1),
                              HrtimerForwardNow (uint (on_time d))]\<rparr>)"
  by (simp add: gpio_pwm_timer_def gpio_pwm_on_def kernel_defs ns_to_ktime_def)

lemma timer_callback_pin_on:
  "pin_on d \<Longrightarrow>
     gpio_pwm_timer res now d =
       (HRTIMER_RESTART,
        d\<lparr>pin_on := False, gpio_pwm := polarity d,
          timer := snd (hrtimer_forward res (timer d) now (uint (off_time d))),
          calls := calls d @ [GpiodSetValue (if polarity d then 1 else 0),
                              HrtimerForwardNow (uint (off_time d))]\<rparr>)"
  by (simp add: gpio_pwm_timer_def gpio_pwm_off_def kernel_defs ns_to_ktime_def)

lemma run_hrtimer_idle:
  "\<not> enqueued (timer d) \<Longrightarrow> run_hrtimer res now d = d"
  by (simp add: run_hrtimer_def)

lemma run_hrtimer_due:
  assumes "enqueued (timer d)" "expires (timer d) \<le> now"
  shows "run_hrtimer res now d =
     (let interval = uint (if pin_on d then off_time d else on_time d);
          level = (pin_on d = polarity d)
      in d\<lparr>pin_on := \<not> pin_on d, gpio_pwm := level,
           timer := (snd (hrtimer_forward res ((timer d)\<lparr>enqueued := False\<rparr>) now interval))
                      \<lparr>enqueued := True\<rparr>,
           calls := calls d @ [GpiodSetValue (if level then 1 else 0),
                               HrtimerForwardNow interval]\<rparr>)"
proof (cases "pin_on d")
  case True
  then show ?thesis
    using assms
    by (simp add: run_hrtimer_def timer_callback_pin_on hrtimer_forward_enqueued Let_def)
next
  case False
  then show ?thesis
    using assms
    by (simp add: run_hrtimer_def timer_callback_not_pin_on hrtimer_forward_enqueued Let_def)
qed

lemma run_hrtimer_deadline:
  assumes "enqueued (timer d)" "0 \<le> expires (timer d)" "expires (timer d) \<le> now" "0 < res"
    and "now + forward_interval res d \<le> KTIME_MAX"
  shows "expires (timer (run_hrtimer res now d))
           = expires (timer d)
             + ((now - expires (timer d)) div forward_interval res d + 1) * forward_interval res d"
proof -
  let ?i = "uint (if pin_on d then off_time d else on_time d)"
  let ?t = "(timer d)\<lparr>enqueued := False\<rparr>"
  have "expires (snd (hrtimer_forward res ?t now ?i))
      = expires ?t + ((now - expires ?t) div max res ?i + 1) * max res ?i"
    using assms
    by (intro hrtimer_forward_any_delay) (simp_all add: forward_interval_def ns_to_ktime_def)
  then show ?thesis
    using assms(1,3)
    by (simp add: run_hrtimer_due Let_def forward_interval_def ns_to_ktime_def)
qed

lemma new_calls_append [simp]: "calls d' = calls d @ cs \<Longrightarrow> new_calls d d' = cs"
  by (simp add: new_calls_def)

subsection \<open>Acquisition and release\<close>

lemma request_success:
  "gpio_pwm_request True (Inr u) h =
     (0, h\<lparr>kmem := kmem h + 1, gpio_claimed := True, chip_data := Some kzalloc_data\<rparr>)"
  by (simp add: gpio_pwm_request_def kzalloc_data_def hrtimer_init_def)

text \<open>
  Release (lines 176-183) after a successful request gives back both the line
  and the allocation, and leaves the chip data pointer behind.
\<close>

lemma free_releases_all:
  "gpio_pwm_free (snd (gpio_pwm_request True (Inr u) h))
     = Some (h\<lparr>gpio_claimed := False,
               chip_data := Some (gpio_pwm_disable kzalloc_data)\<rparr>)"
  by (simp add: request_success gpio_pwm_free_def)

subsection \<open>Runs\<close>

lemma chan_inv_fresh: "chan_inv kzalloc_data"
  by (simp add: chan_inv_def kzalloc_data_def)

lemma step_chan_inv: "chan_inv d \<Longrightarrow> chan_inv (step res a d)"
proof (cases a)
  case (Config x y)
  assume "chan_inv d"
  then show ?thesis using Config by (auto simp: chan_inv_def gpio_pwm_config_def kernel_defs)
next
  case (SetPolarity p)
  assume "chan_inv d"
  then show ?thesis using SetPolarity
    by (auto simp: chan_inv_def gpio_pwm_set_polarity_def kernel_defs)
next
  case (Enable t)
  assume "chan_inv d"
  then show ?thesis using Enable
    by (cases "is_running d") (auto simp: chan_inv_def enable_when_running enable_when_stopped)
next
  case Disable
  assume "chan_inv d"
  then show ?thesis using Disable
    by (cases "is_running d") (auto simp: chan_inv_def disable_when_running disable_when_stopped)
next
  case (Fire now)
  assume inv: "chan_inv d"
  show ?thesis
  proof (cases "enqueued (timer d) \<and> expires (timer d) \<le> now")
    case True
    then show ?thesis using Fire inv
      by (auto simp: run_hrtimer_due chan_inv_def Let_def)
  next
    case False
    then have "run_hrtimer res now d = d"
      by (auto simp: run_hrtimer_def)
    then show ?thesis using Fire inv
      by simp
  qed
qed

lemma run_chan_inv: "chan_inv d \<Longrightarrow> chan_inv (run res acts d)"
  unfolding run_def
  by (induction acts arbitrary: d) (simp_all add: step_chan_inv)

text \<open>
  A stopped channel stays stopped, and its pin untouched, as long as enable is
  not called.
\<close>

lemma stopped_step:
  assumes "\<not> is_running d" "\<not> enqueued (timer d)" "\<not> is_enable a"
  shows "\<not> is_running (step res a d) \<and> \<not> enqueued (timer (step res a d))
     \<and> gpio_pwm (step res a d) = gpio_pwm d
     \<and> (\<exists>cs. calls (step res a d) = calls d @ cs \<and> \<not> list_ex is_pin_write cs)"
  using assms
  by (cases a)
     (simp_all add: gpio_pwm_config_def gpio_pwm_set_polarity_def kernel_defs
        disable_when_stopped run_hrtimer_idle)

lemma stopped_run:
  assumes "\<not> is_running d" "\<not> enqueued (timer d)" "list_all (\<lambda>a. \<not> is_enable a) acts"
  shows "\<not> is_running (run res acts d) \<and> \<not> enqueued (timer (run res acts d))
     \<and> gpio_pwm (run res acts d) = gpio_pwm d
     \<and> (\<exists>cs. calls (run res acts d) = calls d @ cs \<and> \<not> list_ex is_pin_write cs)"
  using assms
proof (induction acts arbitrary: d)
  case Nil
  then show ?case by (simp add: run_def)
next
  case (Cons a acts)
  from Cons.prems have a: "\<not> is_enable a" and rest: "list_all (\<lambda>a. \<not> is_enable a) acts"
    by simp_all
  note s = stopped_step [OF Cons.prems(1) Cons.prems(2) a, of res]
  from s obtain cs1 where cs1: "calls (step res a d) = calls d @ cs1" "\<not> list_ex is_pin_write cs1"
    by blast
  from s have s1: "\<not> is_running (step res a d)" and s2: "\<not> enqueued (timer (step res a d))"
    by simp_all
  note r = Cons.IH [OF s1 s2 rest]
  from r obtain cs2 where cs2: "calls (run res acts (step res a d)) = calls (step res a d) @ cs2"
      "\<not> list_ex is_pin_write cs2"
    by blast
  have run_Cons: "run res (a # acts) d = run res acts (step res a d)"
    by (simp add: run_def)
  have "calls (run res (a # acts) d) = calls d @ (cs1 @ cs2)"
    using cs1 cs2 run_Cons by simp
  moreover have "\<not> list_ex is_pin_write (cs1 @ cs2)"
    using cs1 cs2 by simp
  ultimately have "\<exists>cs. calls (run res (a # acts) d) = calls d @ cs \<and> \<not> list_ex is_pin_write cs"
    by blast
  then show ?case
    using r s run_Cons by simp
qed

subsection \<open>The nominal schedule\<close>

lemma boundary_0: "boundary e0 on off 0 = e0"
  by (simp add: boundary_def)

lemma boundary_Suc:
  "boundary e0 on off (Suc k) = boundary e0 on off k + (if even k then on else off)"
proof (cases "even k")
  case True
  then obtain m where "k = 2 * m" by (auto elim: evenE)
  then show ?thesis by (simp add: boundary_def algebra_simps)
next
  case False
  then obtain m where "k = 2 * m + 1" by (auto elim: oddE)
  then show ?thesis by (simp add: boundary_def algebra_simps)
qed

lemma boundary_mono:
  assumes "0 \<le> on" "0 \<le> off" "j \<le> k"
  shows "boundary e0 on off j \<le> boundary e0 on off k"
  using assms(3)
proof (induction k)
  case 0
  then show ?case by simp
next
  case (Suc k)
  show ?case
  proof (cases "j = Suc k")
    case True
    then show ?thesis by simp
  next
    case False
    with Suc have "boundary e0 on off j \<le> boundary e0 on off k" by simp
    also have "\<dots> \<le> boundary e0 on off (Suc k)"
      using assms(1,2) by (simp add: boundary_Suc)
    finally show ?thesis .
  qed
qed

lemma fires_snoc: "fires res (nows @ [now]) d = run_hrtimer res now (fires res nows d)"
  by (simp add: fires_def run_def)

lemma fires_keep_schedule:
  assumes "res \<le> uint (on_time d)" "res \<le> uint (off_time d)"
    and "enqueued (timer d)" "\<not> pin_on d" "0 \<le> expires (timer d)"
    and "\<forall>i < length nows.
           boundary (expires (timer d)) (uint (on_time d)) (uint (off_time d)) i \<le> nows ! i
           \<and> nows ! i < boundary (expires (timer d)) (uint (on_time d)) (uint (off_time d)) (Suc i)"
    and "boundary (expires (timer d)) (uint (on_time d)) (uint (off_time d)) (length nows)
           \<le> KTIME_MAX"
  shows "expires (timer (fires res nows d))
           = boundary (expires (timer d)) (uint (on_time d)) (uint (off_time d)) (length nows)
     \<and> enqueued (timer (fires res nows d))
     \<and> pin_on (fires res nows d) = odd (length nows)
     \<and> on_time (fires res nows d) = on_time d
     \<and> off_time (fires res nows d) = off_time d"
  using assms(6,7)
proof (induction nows rule: rev_induct)
  case Nil
  then show ?case
    using assms(3,4) by (simp add: fires_def run_def boundary_0)
next
  case (snoc now nows)
  let ?b = "boundary (expires (timer d)) (uint (on_time d)) (uint (off_time d))"
  let ?k = "length nows"
  let ?d = "fires res nows d"
  have nonneg: "0 \<le> uint (on_time d)" "0 \<le> uint (off_time d)"
    by simp_all
  have win: "\<forall>i < ?k. ?b i \<le> nows ! i \<and> nows ! i < ?b (Suc i)"
  proof (intro allI impI)
    fix i assume i: "i < ?k"
    then have "i < length (nows @ [now])" by simp
    with snoc.prems(1) have "?b i \<le> (nows @ [now]) ! i \<and> (nows @ [now]) ! i < ?b (Suc i)"
      by blast
    then show "?b i \<le> nows ! i \<and> nows ! i < ?b (Suc i)"
      using i by (simp add: nth_append)
  qed
  have top: "?b (Suc ?k) \<le> KTIME_MAX"
    using snoc.prems(2) by simp
  have "?b ?k \<le> ?b (Suc ?k)"
    by (rule boundary_mono [OF nonneg]) simp
  with top have "?b ?k \<le> KTIME_MAX"
    by linarith
  note IH = snoc.IH [OF win this]
  have now: "?b ?k \<le> now" "now < ?b (Suc ?k)"
    using snoc.prems(1) [rule_format, of ?k] by simp_all
  have "0 \<le> ?b 0"
    using assms(5) by (simp add: boundary_0)
  also have "?b 0 \<le> ?b ?k"
    by (rule boundary_mono [OF nonneg]) simp
  finally have pos: "0 \<le> ?b ?k" .
  let ?I = "uint (if pin_on ?d then off_time ?d else on_time ?d)"
  have I: "?I = (if even ?k then uint (on_time d) else uint (off_time d))"
    using IH by simp
  then have step: "?b (Suc ?k) = ?b ?k + ?I"
    by (simp add: boundary_Suc)
  have resI: "res \<le> ?I"
    using assms(1,2) I by simp
  let ?t = "(timer ?d)\<lparr>enqueued := False\<rparr>"
  have fwd: "snd (hrtimer_forward res ?t now ?I) = ?t\<lparr>expires := expires ?t + ?I\<rparr>"
  proof (rule hrtimer_forward_in_time)
    show "\<not> enqueued ?t" by simp
    show "0 \<le> expires ?t" using IH pos by simp
    show "expires ?t \<le> now" using IH now(1) by simp
    show "now < expires ?t + ?I" using IH now(2) step by simp
    show "res \<le> ?I" by (rule resI)
    show "expires ?t + ?I \<le> KTIME_MAX" using IH top step by simp
  qed
  have due: "enqueued (timer ?d)" "expires (timer ?d) \<le> now"
    using IH now(1) by simp_all
  have "run_hrtimer res now ?d =
      ?d\<lparr>pin_on := \<not> pin_on ?d, gpio_pwm := (pin_on ?d = polarity ?d),
         timer := (?t\<lparr>expires := expires ?t + ?I\<rparr>)\<lparr>enqueued := True\<rparr>,
         calls := calls ?d @ [GpiodSetValue (if pin_on ?d = polarity ?d then 1 else 0),
                              HrtimerForwardNow ?I]\<rparr>"
    unfolding run_hrtimer_due [OF due] Let_def fwd ..
  then show ?case
    using IH step by (simp add: fires_snoc)
qed

text \<open>Two concrete states: a 3 ms / 10 ms channel after enable, and after its first expiry.\<close>

lemma started_1us_2us:
  "run 1 [Config 1000 2000, Enable 0] kzalloc_data =
     \<lparr>is_running = True, polarity = False, pin_on = False, on_time = 1000,
      off_time = 1000, timer = \<lparr>expires = 0, enqueued = True\<rparr>, gpio_pwm = False,
      calls = [MutexLock, MutexUnlock, MutexLock, HrtimerStart 0, MutexUnlock]\<rparr>"
  by (simp add: run_def gpio_pwm_config_def enable_when_stopped kernel_defs kzalloc_data_def
      ktime_add_safe_exact KTIME_MAX_def)

lemma started_3ms_10ms:
  "run 1 [Config 3000000 10000000, Enable 0] kzalloc_data =
     \<lparr>is_running = True, polarity = False, pin_on = False, on_time = 3000000,
      off_time = 7000000, timer = \<lparr>expires = 0, enqueued = True\<rparr>, gpio_pwm = False,
      calls = [MutexLock, MutexUnlock, MutexLock, HrtimerStart 0, MutexUnlock]\<rparr>"
  by (simp add: run_def gpio_pwm_config_def enable_when_stopped kernel_defs kzalloc_data_def
      ktime_add_safe_exact KTIME_MAX_def)

lemma fired_once_3ms_10ms:
  "run 1 [Config 3000000 10000000, Enable 0, Fire 10] kzalloc_data =
     \<lparr>is_running = True, polarity = False, pin_on = True, on_time = 3000000,
      off_time = 7000000, timer = \<lparr>expires = 3000000, enqueued = True\<rparr>, gpio_pwm = True,
      calls = [MutexLock, MutexUnlock, MutexLock, HrtimerStart 0, MutexUnlock,
               GpiodSetValue 1, HrtimerForwardNow 3000000]\<rparr>"
proof -
  have "run 1 [Config 3000000 10000000, Enable 0, Fire 10] kzalloc_data
      = run_hrtimer 1 10 (run 1 [Config 3000000 10000000, Enable 0] kzalloc_data)"
    by (simp add: run_def)
  then show ?thesis
    unfolding started_3ms_10ms
    by (simp add: run_hrtimer_due Let_def hrtimer_forward_def ktime_add_safe_exact KTIME_MAX_def)
qed

subsection \<open>The kernel calls of each operation\<close>

text \<open>
  In the log, every public operation opens with the lock and closes with the
  unlock; the callback logs no call on the mutex.
\<close>

lemma kernel_calls_bracketed:
  "critical_section (new_calls d (snd (gpio_pwm_config duty_ns period_ns d)))
   \<and> critical_section (new_calls d (snd (gpio_pwm_set_polarity pol d)))
   \<and> critical_section (new_calls d (snd (gpio_pwm_enable t d)))
   \<and> critical_section (new_calls d (gpio_pwm_disable d))
   \<and> \<not> list_ex is_mutex_call (new_calls d (snd (gpio_pwm_timer res now d)))"
proof (intro conjI)
  show "critical_section (new_calls d (snd (gpio_pwm_config duty_ns period_ns d)))"
    by (simp add: gpio_pwm_config_def kernel_defs critical_section_def)
  show "critical_section (new_calls d (snd (gpio_pwm_set_polarity pol d)))"
    by (simp add: gpio_pwm_set_polarity_def kernel_defs critical_section_def)
  show "critical_section (new_calls d (snd (gpio_pwm_enable t d)))"
    by (cases "is_running d")
       (simp_all add: enable_when_running enable_when_stopped critical_section_def)
  show "critical_section (new_calls d (gpio_pwm_disable d))"
    by (cases "is_running d")
       (simp_all add: disable_when_running disable_when_stopped critical_section_def)
  show "\<not> list_ex is_mutex_call (new_calls d (snd (gpio_pwm_timer res now d)))"
    by (cases "pin_on d") (simp_all add: timer_callback_pin_on timer_callback_not_pin_on)
qed

lemma callback_logs_no_mutex_call:
  "calls (run 1 [Config 3000000 10000000, Enable 0] kzalloc_data)
     = [MutexLock, MutexUnlock, MutexLock, HrtimerStart 0, MutexUnlock]
   \<and> calls (run 1 [Config 3000000 10000000, Enable 0, Fire 10] kzalloc_data)
     = [MutexLock, MutexUnlock, MutexLock, HrtimerStart 0, MutexUnlock,
        GpiodSetValue 1, HrtimerForwardNow 3000000]
   \<and> is_running (run 1 [Config 3000000 10000000, Enable 0] kzalloc_data)
   \<and> \<not> pin_on (run 1 [Config 3000000 10000000, Enable 0] kzalloc_data)
   \<and> pin_on (run 1 [Config 3000000 10000000, Enable 0, Fire 10] kzalloc_data)"
  unfolding started_3ms_10ms fired_once_3ms_10ms by simp

subsection \<open>Statements and threads\<close>

text \<open>Run from start to end, the statements of an operation give the operation.\<close>

lemmas prog_defs = config_prog_def set_polarity_prog_def enable_prog_def disable_prog_def
  timer_prog_def

lemma seq_prog_of: "seq (prog_of op) d = result_of op d"
  by (cases op)
     (simp_all add: prog_defs gpio_pwm_config_def gpio_pwm_set_polarity_def gpio_pwm_enable_def
        gpio_pwm_disable_def gpio_pwm_off_def kernel_defs Let_def)

lemma seq_timer_prog:
  "seq (timer_prog res now) d
     = (restart_code (fst (gpio_pwm_timer res now d)), snd (gpio_pwm_timer res now d))"
  by (simp add: prog_defs gpio_pwm_timer_def gpio_pwm_on_def gpio_pwm_off_def kernel_defs Let_def)

text \<open>
  Every operation is bracketed: the mutex is taken before the first access and
  released after the last, on every path.
\<close>

lemma bracket_prog_of: "bracket False (prog_of op)"
  by (cases op) (simp_all add: prog_defs)

lemma bracket_exclusive: "bracket True p \<Longrightarrow> \<not> bracket False p"
proof (cases p)
  case (Do k f q)
  assume "bracket True p"
  then show ?thesis using Do by (cases k) simp_all
qed simp_all

lemma mutex_inv_iff:
  "mutex_inv s \<longleftrightarrow>
     (\<forall>i < length (callers s). bracket (owner s = Some i) (callers s ! i))
     \<and> (\<forall>i. owner s = Some i \<longrightarrow> i < length (callers s))"
  by (auto simp: mutex_inv_def list_all_iff split: option.splits)

lemma mutex_inv_boot: "mutex_inv (boot n d)"
  by (simp add: mutex_inv_iff boot_def)

lemma idle_bracket: "idle p \<Longrightarrow> bracket held p = (\<not> held)"
  by (cases p) simp_all

lemma perform_mutex_inv:
  assumes "mutex_inv s" "perform res m s = Some s'"
  shows "mutex_inv s'"
proof (cases m)
  case (Call i op)
  with assms(2) have i: "i < length (callers s)" "idle (callers s ! i)"
    and s': "s' = s\<lparr>callers := (callers s)[i := prog_of op]\<rparr>"
    by (auto split: if_splits)
  from assms(1) i have "owner s \<noteq> Some i"
    by (auto simp: mutex_inv_iff idle_bracket)
  then show ?thesis
    using assms(1) i unfolding s' mutex_inv_iff
    by (auto simp: nth_list_update bracket_prog_of)
next
  case (Run i)
  with assms(2) have i: "i < length (callers s)"
    by (auto split: if_splits)
  show ?thesis
  proof (cases "callers s ! i")
    case (Return r)
    then show ?thesis using assms(2) Run i by simp
  next
    case (Test c p q)
    with assms(2) Run i
    have s': "s' = s\<lparr>callers := (callers s)[i := (if c (chan s) then p else q)]\<rparr>"
      by auto
    from assms(1) i have "bracket (owner s = Some i) (callers s ! i)"
      by (simp add: mutex_inv_iff)
    then have "bracket (owner s = Some i) (Test c p q)"
      unfolding Test .
    then show ?thesis
      using assms(1) i unfolding s' mutex_inv_iff
      by (auto simp: nth_list_update)
  next
    case (Do k f p)
    from assms(1) i have "bracket (owner s = Some i) (callers s ! i)"
      by (simp add: mutex_inv_iff)
    then have b: "bracket (owner s = Some i) (Do k f p)"
      unfolding Do .
    from assms(2) Run i Do have r: "run_statement i k f p s = Some s'"
      by simp
    show ?thesis
    proof (cases k)
      case Lock
      with r have free: "owner s = None"
        and s': "s' = s\<lparr>chan := f (chan s), owner := Some i, callers := (callers s)[i := p]\<rparr>"
        by (auto simp: run_statement_def split: if_splits)
      from b Lock have "bracket True p" by simp
      then show ?thesis
        using assms(1) i free unfolding s' mutex_inv_iff
        by (auto simp: nth_list_update)
    next
      case Unlock
      with r have own: "owner s = Some i"
        and s': "s' = s\<lparr>chan := f (chan s), owner := None, callers := (callers s)[i := p]\<rparr>"
        by (auto simp: run_statement_def split: if_splits)
      from b Unlock have "bracket False p" by simp
      then show ?thesis
        using assms(1) i own unfolding s' mutex_inv_iff
        by (auto simp: nth_list_update)
    next
      case Cancel
      with r have s': "s' = s\<lparr>chan := f (chan s), callers := (callers s)[i := p]\<rparr>"
        by (auto simp: run_statement_def split: if_splits)
      from b Cancel have "bracket (owner s = Some i) p"
        by (cases "owner s = Some i") simp_all
      then show ?thesis
        using assms(1) i unfolding s' mutex_inv_iff
        by (auto simp: nth_list_update)
    next
      case Touch
      with r have s': "s' = s\<lparr>chan := f (chan s), callers := (callers s)[i := p]\<rparr>"
        by (auto simp: run_statement_def)
      from b Touch have "bracket (owner s = Some i) p"
        by (cases "owner s = Some i") simp_all
      then show ?thesis
        using assms(1) i unfolding s' mutex_inv_iff
        by (auto simp: nth_list_update)
    qed
  qed
next
  case (Expire now)
  with assms(2) have "owner s' = owner s" "callers s' = callers s"
    by (auto split: if_splits)
  then show ?thesis using assms(1) by (simp add: mutex_inv_iff)
next
  case Tick
  with assms(2) have "owner s' = owner s \<and> callers s' = callers s"
    by (auto split: option.splits prog.splits if_splits)
  then show ?thesis using assms(1) by (simp add: mutex_inv_iff)
qed

lemma moves_mutex_inv:
  "mutex_inv s \<Longrightarrow> moves res ms s = Some s' \<Longrightarrow> mutex_inv s'"
proof (induction ms arbitrary: s)
  case Nil
  then show ?case by simp
next
  case (Cons m ms)
  from Cons.prems(2) obtain s1 where s1: "perform res m s = Some s1" "moves res ms s1 = Some s'"
    by (auto split: option.splits)
  from perform_mutex_inv [OF Cons.prems(1) s1(1)] have "mutex_inv s1" .
  from Cons.IH [OF this s1(2)] show ?case .
qed

lemma touches_next_bracket: "touches_next p \<Longrightarrow> bracket held p \<Longrightarrow> held"
proof (cases p)
  case (Do k f q)
  assume "touches_next p" "bracket held p"
  then show ?thesis using Do by (cases k) simp_all
qed simp_all

lemma moves_append:
  "moves res xs s = Some s1 \<Longrightarrow> moves res ys s1 = r \<Longrightarrow> moves res (xs @ ys) s = r"
  by (induction xs arbitrary: s) (auto split: option.splits)

text \<open>
  An expiry taken statement by statement, with nothing in between, is
  \<open>run_hrtimer\<close>; a call of enable likewise is \<open>gpio_pwm_enable\<close>.
\<close>

lemma expiry_moves:
  assumes "callback s = None" "enqueued (timer (chan s))" "expires (timer (chan s)) \<le> now"
  shows "moves res [Expire now, Tick, Tick, Tick, Tick, Tick] s
           = Some (s\<lparr>chan := run_hrtimer res now (chan s)\<rparr>)"
proof (cases "pin_on (chan s)")
  case True
  then show ?thesis
    using assms
    by (simp add: run_hrtimer_due Let_def timer_prog_def requeue_def kernel_defs
        hrtimer_forward_enqueued ns_to_ktime_def)
next
  case False
  then show ?thesis
    using assms
    by (simp add: run_hrtimer_due Let_def timer_prog_def requeue_def kernel_defs
        hrtimer_forward_enqueued ns_to_ktime_def)
qed

lemma call_moves_enable:
  assumes "\<not> is_running d"
  shows "moves res [Call 0 (OpEnable t), Run 0, Run 0, Run 0, Run 0, Run 0] (boot (Suc 0) d)
           = Some (boot (Suc 0) (snd (gpio_pwm_enable t d)))"
  using assms
  by (simp add: boot_def enable_prog_def run_statement_def gpio_pwm_enable_def kernel_defs Let_def)

lemmas move_defs = boot_def run_statement_def requeue_def prog_defs kernel_defs

lemma early_expiry_moves:
  assumes "\<not> is_running d" "0 \<le> t" "t \<le> now" "t \<le> KTIME_MAX"
  shows "moves res [Call 0 (OpEnable t), Run 0, Run 0, Run 0, Run 0,
                    Expire now, Tick, Tick, Tick, Tick, Tick, Run 0] (boot (Suc 0) d)
           = Some (boot (Suc 0) (enable_then_early_expiry res t now d))"
proof -
  let ?e = "hrtimer_start t 0 ((mutex_lock d)\<lparr>is_running := True\<rparr>)"
  let ?s = "\<lparr>chan = ?e, owner = Some 0,
             callers = [Do Unlock mutex_unlock (Return 0)], callback = None\<rparr>"
  have first: "moves res [Call 0 (OpEnable t), Run 0, Run 0, Run 0, Run 0] (boot (Suc 0) d)
      = Some ?s"
    using assms(1) by (simp add: boot_def enable_prog_def run_statement_def kernel_defs)
  have due: "callback ?s = None" "enqueued (timer (chan ?s))" "expires (timer (chan ?s)) \<le> now"
    using assms(2-4) by (simp_all add: kernel_defs ktime_add_safe_exact)
  note second = expiry_moves [OF due, of res]
  have third: "moves res [Run 0] (?s\<lparr>chan := run_hrtimer res now (chan ?s)\<rparr>)
      = Some (boot (Suc 0) (enable_then_early_expiry res t now d))"
    by (simp add: boot_def run_statement_def enable_then_early_expiry_def)
  have "moves res ([Call 0 (OpEnable t), Run 0, Run 0, Run 0, Run 0]
        @ [Expire now, Tick, Tick, Tick, Tick, Tick] @ [Run 0]) (boot (Suc 0) d)
      = Some (boot (Suc 0) (enable_then_early_expiry res t now d))"
    by (rule moves_append [OF first], rule moves_append [OF second], rule third)
  then show ?thesis by simp
qed

lemma multiple_meets_now:
  assumes "0 < (i::int)" "e \<le> now"
  shows "(e + ((now - e) div i + 1) * i = now + i) = ((now - e) mod i = 0)"
proof -
  define q where "q = (now - e) div i"
  define r where "r = (now - e) mod i"
  have split: "now - e = i * q + r"
    unfolding q_def r_def by simp
  have expand: "(q + 1) * i = i * q + i"
    by (simp add: algebra_simps)
  show ?thesis
    unfolding q_def [symmetric] r_def [symmetric] expand using split by linarith
qed

section \<open>The claims\<close>

subsection \<open>Rescheduling\<close>

text \<open>
  Claim C1, as stated, fails: the new deadline is not always the previous expiry
  plus \<open>on_time\<close> or \<open>off_time\<close>. A channel configured with 1000 ns on and
  1000 ns off is enabled at time 0, so its first expiry is due at 0; the
  callback takes the clock at 2500. \<^verbatim>\<open>hrtimer_forward_now\<close> then skips the two
  periods already missed and sets the deadline to 3000, not to 0 + 1000.
\<close>

theorem late_firing_skips_periods:
  "\<not> pin_on (run 1 [Config 1000 2000, Enable 0] kzalloc_data)
   \<and> is_running (run 1 [Config 1000 2000, Enable 0] kzalloc_data)
   \<and> expires (timer (run 1 [Config 1000 2000, Enable 0] kzalloc_data))
       + ns_to_ktime (on_time (run 1 [Config 1000 2000, Enable 0] kzalloc_data)) = 1000
   \<and> expires (timer (run 1 [Config 1000 2000, Enable 0, Fire 2500] kzalloc_data)) = 3000"
  by (simp add: run_def gpio_pwm_config_def enable_when_stopped kernel_defs kzalloc_data_def
      ktime_add_safe_exact KTIME_MAX_def run_hrtimer_due ns_to_ktime_def hrtimer_forward_def
      Let_def)

text \<open>
  Claim C1, amended. Every expiry of a running channel, handled at a clock
  reading \<open>now\<close> not before the expected expiry, moves the deadline from the
  previous expected expiry by a positive whole number of intervals, to the
  first such point after \<open>now\<close>; the interval is \<open>on_time\<close> or \<open>off_time\<close>,
  raised to the timer resolution when below it. The new deadline is thus
  later than \<open>now\<close> and at most one interval later, and it is \<open>now\<close> plus the
  interval exactly when the expiry is handled a whole number of intervals
  after it was expected. So take a running channel at the start of a cycle
  (timer queued, inactive phase), with both phases at least as long as the
  timer resolution, and let every expiry be handled less than one interval
  late: the \<open>i\<close>-th callback reads the clock at or after the \<open>i\<close>-th nominal
  boundary and before the next one. Then after \<open>k\<close> expiries the deadline is
  exactly the \<open>k\<close>-th nominal boundary, the start plus \<open>\<lceil>k/2\<rceil>\<close> on-times and
  \<open>\<lfloor>k/2\<rfloor>\<close> off-times, whatever the clock readings were: the lateness of one
  expiry is not carried into the next.
\<close>

theorem deadlines_follow_expected_times:
  "(enqueued (timer d) \<and> 0 \<le> expires (timer d) \<and> expires (timer d) \<le> now \<and> 0 < res
      \<and> now + forward_interval res d \<le> KTIME_MAX \<longrightarrow>
      expires (timer (run_hrtimer res now d))
        = expires (timer d)
          + ((now - expires (timer d)) div forward_interval res d + 1) * forward_interval res d
      \<and> now < expires (timer (run_hrtimer res now d))
      \<and> expires (timer (run_hrtimer res now d)) \<le> now + forward_interval res d
      \<and> (expires (timer (run_hrtimer res now d)) = now + forward_interval res d)
          = ((now - expires (timer d)) mod forward_interval res d = 0))
   \<and> (res \<le> uint (on_time d) \<and> res \<le> uint (off_time d)
      \<and> enqueued (timer d) \<and> \<not> pin_on d \<and> 0 \<le> expires (timer d)
      \<and> (\<forall>i < length nows.
           boundary (expires (timer d)) (uint (on_time d)) (uint (off_time d)) i \<le> nows ! i
           \<and> nows ! i < boundary (expires (timer d)) (uint (on_time d)) (uint (off_time d)) (Suc i))
      \<and> boundary (expires (timer d)) (uint (on_time d)) (uint (off_time d)) (length nows)
           \<le> KTIME_MAX \<longrightarrow>
      (\<forall>k \<le> length nows.
           expires (timer (fires res (take k nows) d))
             = boundary (expires (timer d)) (uint (on_time d)) (uint (off_time d)) k
           \<and> enqueued (timer (fires res (take k nows) d))
           \<and> pin_on (fires res (take k nows) d) = odd k))"
proof (rule conjI; intro impI allI)
  assume a: "enqueued (timer d) \<and> 0 \<le> expires (timer d) \<and> expires (timer d) \<le> now \<and> 0 < res
      \<and> now + forward_interval res d \<le> KTIME_MAX"
  let ?I = "forward_interval res d"
  have I: "0 < ?I"
    using a by (auto simp: forward_interval_def less_max_iff_disj)
  have eq: "expires (timer (run_hrtimer res now d))
      = expires (timer d) + ((now - expires (timer d)) div ?I + 1) * ?I"
    using a by (intro run_hrtimer_deadline) simp_all
  have "now < expires (timer (run_hrtimer res now d))"
    unfolding eq using a by (intro next_multiple_after(1) [OF I]) simp
  moreover have "expires (timer (run_hrtimer res now d)) \<le> now + ?I"
    unfolding eq using a by (intro next_multiple_after(2) [OF I]) simp
  moreover have "(expires (timer (run_hrtimer res now d)) = now + ?I)
      = ((now - expires (timer d)) mod ?I = 0)"
    unfolding eq using a by (intro multiple_meets_now [OF I]) simp
  ultimately show "expires (timer (run_hrtimer res now d))
        = expires (timer d) + ((now - expires (timer d)) div ?I + 1) * ?I
      \<and> now < expires (timer (run_hrtimer res now d))
      \<and> expires (timer (run_hrtimer res now d)) \<le> now + ?I
      \<and> (expires (timer (run_hrtimer res now d)) = now + ?I)
          = ((now - expires (timer d)) mod ?I = 0)"
    using eq by simp
next
  fix k
  let ?b = "boundary (expires (timer d)) (uint (on_time d)) (uint (off_time d))"
  assume a: "res \<le> uint (on_time d) \<and> res \<le> uint (off_time d)
      \<and> enqueued (timer d) \<and> \<not> pin_on d \<and> 0 \<le> expires (timer d)
      \<and> (\<forall>i < length nows. ?b i \<le> nows ! i \<and> nows ! i < ?b (Suc i))
      \<and> ?b (length nows) \<le> KTIME_MAX"
    and k: "k \<le> length nows"
  have len: "length (take k nows) = k"
    using k by simp
  have win: "\<forall>i < length (take k nows). ?b i \<le> take k nows ! i \<and> take k nows ! i < ?b (Suc i)"
    using a k by simp
  have "?b k \<le> ?b (length nows)"
    by (rule boundary_mono) (simp_all add: k)
  with a have top: "?b (length (take k nows)) \<le> KTIME_MAX"
    unfolding len by linarith
  have pre: "res \<le> uint (on_time d)" "res \<le> uint (off_time d)" "enqueued (timer d)"
    "\<not> pin_on d" "0 \<le> expires (timer d)"
    using a by simp_all
  from fires_keep_schedule [OF pre win top]
  show "expires (timer (fires res (take k nows) d)) = ?b k
        \<and> enqueued (timer (fires res (take k nows) d))
        \<and> pin_on (fires res (take k nows) d) = odd k"
    unfolding len by simp
qed

theorem deadlines_follow_expected_times_witness:
  "expires (timer (run_hrtimer 1 2500 (run 1 [Config 1000 2000, Enable 0] kzalloc_data))) = 3000
   \<and> expires (timer (fires 1 (take 4 [10, 3000020, 10000005, 13000000])
      (run 1 [Config 3000000 10000000, Enable 0] kzalloc_data))) = 20000000
   \<and> pin_on (fires 1 (take 3 [10, 3000020, 10000005, 13000000])
      (run 1 [Config 3000000 10000000, Enable 0] kzalloc_data))"
proof -
  let ?l = "run 1 [Config 1000 2000, Enable 0] kzalloc_data"
  let ?d = "run 1 [Config 3000000 10000000, Enable 0] kzalloc_data"
  let ?nows = "[10, 3000020, 10000005, 13000000] :: int list"
  have late: "enqueued (timer ?l) \<and> 0 \<le> expires (timer ?l) \<and> expires (timer ?l) \<le> 2500
      \<and> (0::int) < 1 \<and> 2500 + forward_interval 1 ?l \<le> KTIME_MAX"
    unfolding started_1us_2us by (simp add: forward_interval_def ns_to_ktime_def KTIME_MAX_def)
  have in_time: "1 \<le> uint (on_time ?d) \<and> 1 \<le> uint (off_time ?d)
      \<and> enqueued (timer ?d) \<and> \<not> pin_on ?d \<and> 0 \<le> expires (timer ?d)
      \<and> (\<forall>i < length ?nows.
           boundary (expires (timer ?d)) (uint (on_time ?d)) (uint (off_time ?d)) i \<le> ?nows ! i
           \<and> ?nows ! i
               < boundary (expires (timer ?d)) (uint (on_time ?d)) (uint (off_time ?d)) (Suc i))
      \<and> boundary (expires (timer ?d)) (uint (on_time ?d)) (uint (off_time ?d)) (length ?nows)
           \<le> KTIME_MAX"
    unfolding started_3ms_10ms
    by (simp add: All_less_Suc boundary_Suc boundary_0 KTIME_MAX_def)
  note a = deadlines_follow_expected_times [where d = ?l and now = 2500 and res = 1,
      THEN conjunct1, rule_format, OF late]
  note b = deadlines_follow_expected_times [where d = ?d and res = 1 and nows = ?nows,
      THEN conjunct2, rule_format, OF in_time]
  from a b [of 4] b [of 3]
  show ?thesis
    unfolding started_3ms_10ms started_1us_2us
    by (simp add: boundary_def forward_interval_def ns_to_ktime_def)
qed

subsection \<open>Locking\<close>

text \<open>
  Claim C2, as stated, fails: the timer callback does not take the lock, and it
  runs while a caller is inside a critical section. A caller enables the
  channel, then enters configure, takes the mutex and writes \<open>on_time\<close>; at
  that point the timer expires and the callback tests \<open>pin_on\<close> and writes
  the pin. The caller still holds the mutex, with the write of \<open>off_time\<close>
  and the unlock ahead of it; the log shows the pin write after the caller's
  \<^verbatim>\<open>mutex_lock\<close>, with no \<^verbatim>\<open>mutex_unlock\<close> and no second \<^verbatim>\<open>mutex_lock\<close> in
  between.
\<close>

theorem callback_runs_inside_critical_section:
  "map_option owner
     (moves 1 [Call 0 (OpEnable 0), Run 0, Run 0, Run 0, Run 0, Run 0,
               Call 0 (OpConfig 3000000 10000000), Run 0, Run 0,
               Expire 10, Tick, Tick]
        (boot (Suc 0) kzalloc_data)) = Some (Some 0)
   \<and> map_option (bracket True \<circ> hd \<circ> callers)
     (moves 1 [Call 0 (OpEnable 0), Run 0, Run 0, Run 0, Run 0, Run 0,
               Call 0 (OpConfig 3000000 10000000), Run 0, Run 0,
               Expire 10, Tick, Tick]
        (boot (Suc 0) kzalloc_data)) = Some True
   \<and> map_option (calls \<circ> chan)
     (moves 1 [Call 0 (OpEnable 0), Run 0, Run 0, Run 0, Run 0, Run 0,
               Call 0 (OpConfig 3000000 10000000), Run 0, Run 0,
               Expire 10, Tick, Tick]
        (boot (Suc 0) kzalloc_data))
       = Some [MutexLock, HrtimerStart 0, MutexUnlock, MutexLock, GpiodSetValue 1]
   \<and> map_option (gpio_pwm \<circ> chan)
     (moves 1 [Call 0 (OpEnable 0), Run 0, Run 0, Run 0, Run 0, Run 0,
               Call 0 (OpConfig 3000000 10000000), Run 0, Run 0,
               Expire 10, Tick, Tick]
        (boot (Suc 0) kzalloc_data)) = Some True
   \<and> map_option (gpio_pwm \<circ> chan)
     (moves 1 [Call 0 (OpEnable 0), Run 0, Run 0, Run 0, Run 0, Run 0,
               Call 0 (OpConfig 3000000 10000000), Run 0, Run 0]
        (boot (Suc 0) kzalloc_data)) = Some False"
  by (simp add: move_defs kzalloc_data_def ktime_add_safe_exact KTIME_MAX_def)

text \<open>
  Claim C2, amended. Each of the four public operations (configure,
  set_polarity, enable, disable) takes the channel's lock before its first
  access to the record, the pin or the timer and releases it after its last,
  on every return path. So, however callers in any number of threads and the
  timer context are interleaved, a caller is inside a critical section exactly
  when it holds the lock, a caller about to read or write the record holds
  the lock, and at most one caller is inside a critical section at any
  instant. The timer callback takes no lock, and its first statement reads
  the record.
\<close>

theorem callers_exclude_one_another:
  "bracket False (prog_of op)
   \<and> seq (prog_of op) d = result_of op d
   \<and> lock_free (timer_prog res now)
   \<and> touches_next (timer_prog res now)
   \<and> (moves res ms (boot n d) = Some s \<longrightarrow>
        (\<forall>i < length (callers s). bracket True (callers s ! i) = (owner s = Some i))
        \<and> (\<forall>i < length (callers s). owner s \<noteq> Some i \<longrightarrow> bracket False (callers s ! i))
        \<and> (\<forall>i < length (callers s). touches_next (callers s ! i) \<longrightarrow> owner s = Some i)
        \<and> (\<forall>i < length (callers s). \<forall>j < length (callers s).
              bracket True (callers s ! i) \<and> bracket True (callers s ! j) \<longrightarrow> i = j))"
proof (intro conjI impI)
  show "bracket False (prog_of op)"
    by (rule bracket_prog_of)
  show "seq (prog_of op) d = result_of op d"
    by (rule seq_prog_of)
  show "lock_free (timer_prog res now)" "touches_next (timer_prog res now)"
    by (simp_all add: timer_prog_def)
next
  assume "moves res ms (boot n d) = Some s"
  with mutex_inv_boot have "mutex_inv s"
    by (rule moves_mutex_inv)
  then have inv: "\<And>i. i < length (callers s) \<Longrightarrow> bracket (owner s = Some i) (callers s ! i)"
    by (simp add: mutex_inv_iff)
  have in_iff: "bracket True (callers s ! i) = (owner s = Some i)" if "i < length (callers s)" for i
    using inv [OF that] bracket_exclusive [of "callers s ! i"]
    by (cases "owner s = Some i") auto
  show "\<forall>i < length (callers s). bracket True (callers s ! i) = (owner s = Some i)"
    using in_iff by blast
  show "\<forall>i < length (callers s). owner s \<noteq> Some i \<longrightarrow> bracket False (callers s ! i)"
    using inv by fastforce
  show "\<forall>i < length (callers s). touches_next (callers s ! i) \<longrightarrow> owner s = Some i"
    using inv touches_next_bracket by blast
  show "\<forall>i < length (callers s). \<forall>j < length (callers s).
          bracket True (callers s ! i) \<and> bracket True (callers s ! j) \<longrightarrow> i = j"
    using in_iff by auto
qed

theorem callers_exclude_one_another_witness:
  "map_option owner
     (moves 1 [Call 0 (OpConfig 3000000 10000000), Call 1 OpDisable, Run 0, Run 0]
        (boot (Suc (Suc 0)) kzalloc_data)) = Some (Some 0)
   \<and> map_option (bracket True \<circ> hd \<circ> callers)
     (moves 1 [Call 0 (OpConfig 3000000 10000000), Call 1 OpDisable, Run 0, Run 0]
        (boot (Suc (Suc 0)) kzalloc_data)) = Some True
   \<and> map_option (bracket False \<circ> hd \<circ> tl \<circ> callers)
     (moves 1 [Call 0 (OpConfig 3000000 10000000), Call 1 OpDisable, Run 0, Run 0]
        (boot (Suc (Suc 0)) kzalloc_data)) = Some True
   \<and> moves 1 [Call 0 (OpConfig 3000000 10000000), Call 1 OpDisable, Run 0, Run 0, Run 1]
        (boot (Suc (Suc 0)) kzalloc_data) = None"
proof -
  let ?ms = "[Call 0 (OpConfig 3000000 10000000), Call 1 OpDisable, Run 0, Run 0]"
  obtain s where s: "moves 1 ?ms (boot (Suc (Suc 0)) kzalloc_data) = Some s"
    by (simp add: move_defs)
  have len: "length (callers s) = 2" and own: "owner s = Some 0"
    using s by (auto simp: move_defs)
  note main = callers_exclude_one_another [where op = OpDisable and res = 1 and ms = ?ms
      and n = "Suc (Suc 0)" and d = kzalloc_data and s = s and now = 0,
      THEN conjunct2, THEN conjunct2, THEN conjunct2, THEN conjunct2, rule_format, OF s]
  from main have a: "bracket True (callers s ! 0) = (owner s = Some 0)"
    using len by simp
  from main have b: "owner s \<noteq> Some 1 \<longrightarrow> bracket False (callers s ! 1)"
    using len by simp
  have hd0: "hd (callers s) = callers s ! 0" and hd1: "hd (tl (callers s)) = callers s ! 1"
    using len by (cases "callers s"; cases "tl (callers s)"; simp)+
  have blocked: "moves 1 [Call 0 (OpConfig 3000000 10000000), Call 1 OpDisable, Run 0, Run 0, Run 1]
      (boot (Suc (Suc 0)) kzalloc_data) = None"
    by (simp add: move_defs)
  show ?thesis
    unfolding s blocked using a b own by (simp add: hd0 hd1)
qed

subsection \<open>disable\<close>

text \<open>
  Claim C3. On a running channel, when disable returns the timer is off the
  queue, \<open>is_running\<close> is false and the pin has been written to the inactive
  level (logical 1 with inverted polarity, 0 otherwise) whichever phase the
  channel was in. From there on, whatever is called or expires, as long as it
  is not enable, the timer stays off the queue, so no expiry runs the callback,
  and nothing writes the pin.
\<close>

theorem disable_stops_engine:
  assumes "is_running d"
  shows "\<not> is_running (gpio_pwm_disable d)
     \<and> \<not> enqueued (timer (gpio_pwm_disable d))
     \<and> gpio_pwm (gpio_pwm_disable d) = polarity d
     \<and> \<not> pin_on (gpio_pwm_disable d)
     \<and> new_calls d (gpio_pwm_disable d)
         = [MutexLock, HrtimerCancel, GpiodSetValue (if polarity d then 1 else 0), MutexUnlock]
     \<and> (list_all (\<lambda>a. \<not> is_enable a) acts \<longrightarrow>
          \<not> enqueued (timer (run res acts (gpio_pwm_disable d)))
          \<and> gpio_pwm (run res acts (gpio_pwm_disable d)) = polarity d
          \<and> \<not> list_ex is_pin_write
                (new_calls (gpio_pwm_disable d) (run res acts (gpio_pwm_disable d))))"
proof -
  let ?d = "gpio_pwm_disable d"
  have one: "\<not> is_running ?d" "\<not> enqueued (timer ?d)" "gpio_pwm ?d = polarity d" "\<not> pin_on ?d"
    "new_calls d ?d
       = [MutexLock, HrtimerCancel, GpiodSetValue (if polarity d then 1 else 0), MutexUnlock]"
    using assms by (simp_all add: disable_when_running)
  have "\<not> enqueued (timer (run res acts ?d)) \<and> gpio_pwm (run res acts ?d) = polarity d
        \<and> \<not> list_ex is_pin_write (new_calls ?d (run res acts ?d))"
    if "list_all (\<lambda>a. \<not> is_enable a) acts"
  proof -
    note r = stopped_run [OF one(1) one(2) that, of res]
    from r obtain cs where "calls (run res acts ?d) = calls ?d @ cs" "\<not> list_ex is_pin_write cs"
      by blast
    then have "\<not> list_ex is_pin_write (new_calls ?d (run res acts ?d))"
      by simp
    then show ?thesis using r one(3) by simp
  qed
  then show ?thesis using one by blast
qed

theorem disable_stops_engine_witness:
  "is_running (run 1 [Config 3000000 10000000, Enable 0, Fire 10] kzalloc_data)
   \<and> gpio_pwm (run 1 [Config 3000000 10000000, Enable 0, Fire 10] kzalloc_data)
   \<and> \<not> is_running (gpio_pwm_disable
         (run 1 [Config 3000000 10000000, Enable 0, Fire 10] kzalloc_data))
   \<and> \<not> gpio_pwm (gpio_pwm_disable
         (run 1 [Config 3000000 10000000, Enable 0, Fire 10] kzalloc_data))
   \<and> \<not> enqueued (timer (run 1 [Fire 3000005, SetPolarity PWM_POLARITY_INVERSED, Disable]
         (gpio_pwm_disable (run 1 [Config 3000000 10000000, Enable 0, Fire 10] kzalloc_data))))
   \<and> \<not> gpio_pwm (run 1 [Fire 3000005, SetPolarity PWM_POLARITY_INVERSED, Disable]
         (gpio_pwm_disable (run 1 [Config 3000000 10000000, Enable 0, Fire 10] kzalloc_data)))"
proof -
  let ?d = "run 1 [Config 3000000 10000000, Enable 0, Fire 10] kzalloc_data"
  let ?acts = "[Fire 3000005, SetPolarity PWM_POLARITY_INVERSED, Disable]"
  have running: "is_running ?d"
    unfolding fired_once_3ms_10ms by simp
  have later: "list_all (\<lambda>a. \<not> is_enable a) ?acts"
    by simp
  from disable_stops_engine [OF running, of ?acts 1] later
  show ?thesis
    unfolding fired_once_3ms_10ms by simp
qed

text \<open>
  Claim C5. On a stopped channel, the freshly allocated one included, disable
  changes no field and writes nothing to the pin: it takes and releases the
  mutex and returns. So a second disable right after a first one leaves the
  state the first one produced.
\<close>

theorem disable_idempotent:
  "(\<not> is_running d \<longrightarrow>
      gpio_pwm_disable d = d\<lparr>calls := calls d @ [MutexLock, MutexUnlock]\<rparr>)
   \<and> gpio_pwm_disable (gpio_pwm_disable d)
       = (gpio_pwm_disable d)\<lparr>calls := calls (gpio_pwm_disable d) @ [MutexLock, MutexUnlock]\<rparr>"
  by (cases "is_running d") (simp_all add: disable_when_stopped disable_when_running)

theorem disable_idempotent_witness:
  "\<not> is_running kzalloc_data
   \<and> gpio_pwm_disable kzalloc_data = kzalloc_data\<lparr>calls := [MutexLock, MutexUnlock]\<rparr>"
  using disable_idempotent [of kzalloc_data]
  by (simp add: kzalloc_data_def)

subsection \<open>enable\<close>

text \<open>
  Claim C4. On a running channel enable returns \<^verbatim>\<open>-EBUSY\<close> and leaves every field
  as it was: the only trace of the call is that the mutex was taken and
  released. On a stopped channel it returns 0, sets \<open>is_running\<close>, and starts
  the timer with a relative delay of 0: the timer is queued with the current
  clock reading as its expiry.
\<close>

theorem enable_busy_or_arms:
  "(is_running d \<longrightarrow>
      gpio_pwm_enable now d = (- EBUSY, d\<lparr>calls := calls d @ [MutexLock, MutexUnlock]\<rparr>))
   \<and> (\<not> is_running d \<longrightarrow> 0 \<le> now \<longrightarrow> now \<le> KTIME_MAX \<longrightarrow>
      gpio_pwm_enable now d =
        (0, d\<lparr>is_running := True,
              timer := \<lparr>expires = now + 0, enqueued = True\<rparr>,
              calls := calls d @ [MutexLock, HrtimerStart 0, MutexUnlock]\<rparr>))"
  using ktime_add_safe_exact [of 0 now]
  by (simp add: enable_when_running enable_when_stopped)

theorem enable_busy_or_arms_witness:
  "is_running (kzalloc_data\<lparr>is_running := True\<rparr>)
   \<and> gpio_pwm_enable 5 (kzalloc_data\<lparr>is_running := True\<rparr>)
       = (- 16, kzalloc_data\<lparr>is_running := True, calls := [MutexLock, MutexUnlock]\<rparr>)
   \<and> \<not> is_running kzalloc_data \<and> (0::int) \<le> 5 \<and> 5 \<le> KTIME_MAX
   \<and> gpio_pwm_enable 5 kzalloc_data
       = (0, kzalloc_data\<lparr>is_running := True, timer := \<lparr>expires = 5, enqueued = True\<rparr>,
                         calls := [MutexLock, HrtimerStart 0, MutexUnlock]\<rparr>)"
  using enable_busy_or_arms [of "kzalloc_data\<lparr>is_running := True\<rparr>" 5]
    enable_busy_or_arms [of kzalloc_data 5]
  by (simp add: kzalloc_data_def KTIME_MAX_def EBUSY_def)

text \<open>
  Claim C10, as stated, fails: the level at enable's return need not be the
  level before the call. Enable queues the timer with zero delay (line 120)
  before it releases the mutex and returns (lines 123-125), and the callback
  takes no lock. On a 3 ms / 10 ms channel at logical 0, the timer expires
  between the two and the callback writes logical 1; enable then returns 0 with
  the pin at 1.
\<close>

theorem first_expiry_before_enable_returns:
  "map_option (gpio_pwm \<circ> chan)
     (moves 1 [Call 0 (OpConfig 3000000 10000000), Run 0, Run 0, Run 0, Run 0]
        (boot (Suc 0) kzalloc_data)) = Some False
   \<and> map_option (gpio_pwm \<circ> chan)
     (moves 1 [Call 0 (OpConfig 3000000 10000000), Run 0, Run 0, Run 0, Run 0,
               Call 0 (OpEnable 0), Run 0, Run 0, Run 0, Run 0,
               Expire 5, Tick, Tick, Tick, Tick, Tick,
               Run 0]
        (boot (Suc 0) kzalloc_data)) = Some True
   \<and> map_option callers
     (moves 1 [Call 0 (OpConfig 3000000 10000000), Run 0, Run 0, Run 0, Run 0,
               Call 0 (OpEnable 0), Run 0, Run 0, Run 0, Run 0,
               Expire 5, Tick, Tick, Tick, Tick, Tick,
               Run 0]
        (boot (Suc 0) kzalloc_data)) = Some [Return 0]
   \<and> map_option (calls \<circ> chan)
     (moves 1 [Call 0 (OpConfig 3000000 10000000), Run 0, Run 0, Run 0, Run 0,
               Call 0 (OpEnable 0), Run 0, Run 0, Run 0, Run 0,
               Expire 5, Tick, Tick, Tick, Tick, Tick,
               Run 0]
        (boot (Suc 0) kzalloc_data))
       = Some [MutexLock, MutexUnlock, MutexLock, HrtimerStart 0,
               GpiodSetValue 1, HrtimerForwardNow 3000000, MutexUnlock]"
  by (simp add: move_defs kzalloc_data_def ktime_add_safe_exact KTIME_MAX_def ns_to_ktime_def
      hrtimer_forward_def Let_def)

text \<open>
  Claim C10, amended. In any stopped state that a freshly acquired channel can
  reach, enable returns 0 and makes three kernel calls, the lock, the start of
  the timer with delay 0 and the unlock; none of its statements changes the
  level of the pin or writes it, so when nothing runs in between, the level at
  its return is the level before the call. The first expiry, handled right
  after enable has returned or between its \<^verbatim>\<open>hrtimer_start\<close> and its unlock,
  makes a pin write, of the active level (logical 0 with inverted polarity, 1
  otherwise), whether or not that changes the level of the pin.
\<close>

theorem enable_itself_writes_no_pin:
  assumes "chip_data (snd (gpio_pwm_request True (Inr u) h)) = Some d0"
    and "d = run res acts d0" "\<not> is_running d"
    and "0 \<le> t" "t \<le> now" "t \<le> KTIME_MAX"
  shows "seq (enable_prog t) d = gpio_pwm_enable t d
     \<and> fst (gpio_pwm_enable t d) = 0
     \<and> new_calls d (snd (gpio_pwm_enable t d)) = [MutexLock, HrtimerStart 0, MutexUnlock]
     \<and> list_all (\<lambda>f. gpio_pwm (f d') = gpio_pwm d' \<and> \<not> list_ex is_pin_write (new_calls d' (f d')))
          (steps_of (enable_prog t))
     \<and> gpio_pwm (snd (seq (enable_prog t) d)) = gpio_pwm d
     \<and> moves res [Call 0 (OpEnable t), Run 0, Run 0, Run 0, Run 0, Run 0,
                  Expire now, Tick, Tick, Tick, Tick, Tick] (boot (Suc 0) d)
         = Some (boot (Suc 0) (run_hrtimer res now (snd (gpio_pwm_enable t d))))
     \<and> new_calls d (run_hrtimer res now (snd (gpio_pwm_enable t d)))
         = [MutexLock, HrtimerStart 0, MutexUnlock,
            GpiodSetValue (if polarity d then 0 else 1), HrtimerForwardNow (uint (on_time d))]
     \<and> gpio_pwm (run_hrtimer res now (snd (gpio_pwm_enable t d))) = (\<not> polarity d)
     \<and> moves res [Call 0 (OpEnable t), Run 0, Run 0, Run 0, Run 0,
                  Expire now, Tick, Tick, Tick, Tick, Tick, Run 0] (boot (Suc 0) d)
         = Some (boot (Suc 0) (enable_then_early_expiry res t now d))
     \<and> new_calls d (enable_then_early_expiry res t now d)
         = [MutexLock, HrtimerStart 0,
            GpiodSetValue (if polarity d then 0 else 1), HrtimerForwardNow (uint (on_time d)),
            MutexUnlock]
     \<and> gpio_pwm (enable_then_early_expiry res t now d) = (\<not> polarity d)"
proof -
  have "d0 = kzalloc_data"
    using assms(1) by (simp add: request_success)
  then have "chan_inv d"
    using assms(2) run_chan_inv [OF chan_inv_fresh] by simp
  then have off: "\<not> pin_on d"
    using assms(3) by (simp add: chan_inv_def)
  let ?e = "snd (gpio_pwm_enable t d)"
  have e: "?e = d\<lparr>is_running := True, timer := \<lparr>expires = t, enqueued = True\<rparr>,
                  calls := calls d @ [MutexLock, HrtimerStart 0, MutexUnlock]\<rparr>"
    using assms(3,4,6) by (simp add: enable_when_stopped ktime_add_safe_exact)
  have due: "enqueued (timer ?e)" "expires (timer ?e) \<le> now"
    using assms(5) by (simp_all add: e)
  have seq: "seq (enable_prog t) d = gpio_pwm_enable t d"
    using seq_prog_of [of "OpEnable t" d] by simp
  have steps: "list_all (\<lambda>f. gpio_pwm (f d') = gpio_pwm d'
        \<and> \<not> list_ex is_pin_write (new_calls d' (f d'))) (steps_of (enable_prog t))"
    by (simp add: enable_prog_def kernel_defs new_calls_def)
  have late: "moves res ([Call 0 (OpEnable t), Run 0, Run 0, Run 0, Run 0, Run 0]
        @ [Expire now, Tick, Tick, Tick, Tick, Tick]) (boot (Suc 0) d)
      = Some (boot (Suc 0) (run_hrtimer res now ?e))"
  proof -
    have due': "callback (boot (Suc 0) ?e) = None" "enqueued (timer (chan (boot (Suc 0) ?e)))"
      "expires (timer (chan (boot (Suc 0) ?e))) \<le> now"
      using due by (simp_all add: boot_def)
    have "(boot (Suc 0) ?e)\<lparr>chan := run_hrtimer res now (chan (boot (Suc 0) ?e))\<rparr>
        = boot (Suc 0) (run_hrtimer res now ?e)"
      by (simp add: boot_def)
    with expiry_moves [OF due', of res]
    have "moves res [Expire now, Tick, Tick, Tick, Tick, Tick] (boot (Suc 0) ?e)
        = Some (boot (Suc 0) (run_hrtimer res now ?e))"
      by simp
    with call_moves_enable [OF assms(3)] show ?thesis
      by (rule moves_append)
  qed
  have late_calls: "new_calls d (run_hrtimer res now ?e)
      = [MutexLock, HrtimerStart 0, MutexUnlock,
         GpiodSetValue (if polarity d then 0 else 1), HrtimerForwardNow (uint (on_time d))]"
    "gpio_pwm (run_hrtimer res now ?e) = (\<not> polarity d)"
    unfolding run_hrtimer_due [OF due] Let_def using off by (simp_all add: e)
  let ?m = "hrtimer_start t 0 ((mutex_lock d)\<lparr>is_running := True\<rparr>)"
  have m: "?m = d\<lparr>is_running := True, timer := \<lparr>expires = t, enqueued = True\<rparr>,
                  calls := calls d @ [MutexLock, HrtimerStart 0]\<rparr>"
    using assms(4,6) by (simp add: kernel_defs ktime_add_safe_exact)
  have due_m: "enqueued (timer ?m)" "expires (timer ?m) \<le> now"
    using assms(5) by (simp_all add: m)
  have early_calls: "new_calls d (enable_then_early_expiry res t now d)
      = [MutexLock, HrtimerStart 0,
         GpiodSetValue (if polarity d then 0 else 1), HrtimerForwardNow (uint (on_time d)),
         MutexUnlock]"
    "gpio_pwm (enable_then_early_expiry res t now d) = (\<not> polarity d)"
    unfolding enable_then_early_expiry_def run_hrtimer_due [OF due_m] Let_def
    using off by (simp_all add: m kernel_defs)
  have ret: "fst (gpio_pwm_enable t d) = 0"
    using assms(3) by (simp add: enable_when_stopped)
  have own_calls: "new_calls d ?e = [MutexLock, HrtimerStart 0, MutexUnlock]"
    by (simp add: e)
  have same: "gpio_pwm (snd (seq (enable_prog t) d)) = gpio_pwm d"
    unfolding seq by (simp add: e)
  have late': "moves res [Call 0 (OpEnable t), Run 0, Run 0, Run 0, Run 0, Run 0,
                  Expire now, Tick, Tick, Tick, Tick, Tick] (boot (Suc 0) d)
         = Some (boot (Suc 0) (run_hrtimer res now ?e))"
    using late by simp
  note early = early_expiry_moves [OF assms(3,4,5,6), of res]
  show ?thesis
    by (intro conjI) (fact seq ret own_calls steps same late' late_calls early early_calls)+
qed

theorem enable_itself_writes_no_pin_witness:
  "fst (gpio_pwm_enable 0 (run 1 [Config 3000000 10000000] kzalloc_data)) = 0
   \<and> \<not> gpio_pwm (snd (gpio_pwm_enable 0 (run 1 [Config 3000000 10000000] kzalloc_data)))
   \<and> gpio_pwm (run_hrtimer 1 10
         (snd (gpio_pwm_enable 0 (run 1 [Config 3000000 10000000] kzalloc_data))))
   \<and> gpio_pwm (enable_then_early_expiry 1 0 10 (run 1 [Config 3000000 10000000] kzalloc_data))
   \<and> calls (enable_then_early_expiry 1 0 10 (run 1 [Config 3000000 10000000] kzalloc_data))
       = [MutexLock, MutexUnlock, MutexLock, HrtimerStart 0,
          GpiodSetValue 1, HrtimerForwardNow 3000000, MutexUnlock]"
proof -
  let ?h = "\<lparr>kmem = 0, gpio_claimed = False, chip_data = None\<rparr>"
  let ?d = "run 1 [Config 3000000 10000000] kzalloc_data"
  have d: "?d = kzalloc_data\<lparr>on_time := 3000000, off_time := 7000000,
                             calls := [MutexLock, MutexUnlock]\<rparr>"
    by (simp add: run_def gpio_pwm_config_def kernel_defs kzalloc_data_def)
  have 1: "chip_data (snd (gpio_pwm_request True (Inr ()) ?h)) = Some kzalloc_data"
    by (simp add: request_success)
  have 2: "\<not> is_running ?d"
    unfolding d by (simp add: kzalloc_data_def)
  have 3: "(0::int) \<le> 0" "(0::int) \<le> 10" "0 \<le> KTIME_MAX"
    by (simp_all add: KTIME_MAX_def)
  from enable_itself_writes_no_pin [OF 1 refl 2 3]
  show ?thesis
    unfolding d
    by (simp add: kzalloc_data_def enable_when_stopped enable_then_early_expiry_def kernel_defs
        run_hrtimer_due Let_def ktime_add_safe_exact KTIME_MAX_def hrtimer_forward_def)
qed

subsection \<open>The timer callback\<close>




subsection \<open>configure\<close>

text \<open>
  Claim C7. For every pair of arguments configure returns 0, stores \<open>duty_ns\<close>
  in \<open>on_time\<close> and \<open>period_ns - duty_ns\<close> in \<open>off_time\<close> without looking at
  them, and changes nothing else: pin level, phase, polarity, running flag and
  timer are as before, and the only kernel calls are the lock and the unlock.
  Read as unsigned numbers, the stored values are the signed arguments and
  their difference modulo \<open>2 ^ 32\<close>, also when \<open>duty_ns\<close> exceeds \<open>period_ns\<close>.
\<close>

theorem config_stores_unvalidated:
  "gpio_pwm_config duty_ns period_ns d =
     (0, d\<lparr>on_time := duty_ns, off_time := period_ns - duty_ns,
           calls := calls d @ [MutexLock, MutexUnlock]\<rparr>)
   \<and> gpio_pwm (snd (gpio_pwm_config duty_ns period_ns d)) = gpio_pwm d
   \<and> pin_on (snd (gpio_pwm_config duty_ns period_ns d)) = pin_on d
   \<and> polarity (snd (gpio_pwm_config duty_ns period_ns d)) = polarity d
   \<and> is_running (snd (gpio_pwm_config duty_ns period_ns d)) = is_running d
   \<and> timer (snd (gpio_pwm_config duty_ns period_ns d)) = timer d
   \<and> uint (on_time (snd (gpio_pwm_config duty_ns period_ns d))) = sint duty_ns mod 2 ^ 32
   \<and> uint (off_time (snd (gpio_pwm_config duty_ns period_ns d)))
       = (sint period_ns - sint duty_ns) mod 2 ^ 32"
  using uint_word_sub_sint [of period_ns duty_ns] uint_sint_mod [of duty_ns]
  by (simp add: gpio_pwm_config_def kernel_defs)

text \<open>A duty of 5 ns with a period of 3 ns: the off-time stored is \<open>2 ^ 32 - 2\<close>.\<close>

lemma config_duty_above_period:
  "off_time (snd (gpio_pwm_config 5 3 kzalloc_data)) = 4294967294
   \<and> on_time (snd (gpio_pwm_config 5 3 kzalloc_data)) = 5"
  by (simp add: gpio_pwm_config_def kernel_defs kzalloc_data_def)

subsection \<open>Acquisition\<close>

text \<open>
  Claim C8 does not hold of the code. When \<^verbatim>\<open>kzalloc\<close> fails, request returns
  \<^verbatim>\<open>-ENOMEM\<close> and holds nothing. When \<^verbatim>\<open>gpiod_get\<close> fails, request returns
  its error code at once (line 158), without \<^verbatim>\<open>kfree\<close>: the block allocated
  at line 151 stays allocated, and no pointer to it is kept. With
  \<^verbatim>\<open>gpiod_get\<close> returning \<^verbatim>\<open>ERR_PTR(-EBUSY)\<close> on a host that held nothing, one
  block is left.
\<close>

theorem request_line_failure_keeps_allocation:
  "gpio_pwm_request False line h = (- ENOMEM, h)
   \<and> gpio_pwm_request True (Inl err) h = (err, h\<lparr>kmem := kmem h + 1\<rparr>)
   \<and> gpio_pwm_request True (Inl (- 16)) \<lparr>kmem = 0, gpio_claimed = False, chip_data = None\<rparr>
       = (- 16, \<lparr>kmem = 1, gpio_claimed = False, chip_data = None\<rparr>)"
  by (simp add: gpio_pwm_request_def)

subsection \<open>Running flag and timer\<close>



end
